theory Spec2Isabelle
  imports Main
begin

section \<open>The image manager of the image gateway (imagemngr.py, imagegwapi.py)\<close>

subsection \<open>Values, documents and the Mongo collection\<close>

text \<open>
  The values that occur in the documents of the \<open>images\<close> collection: strings, lists,
  the driver's object ids and Python's \<open>None\<close>.
\<close>

datatype val = Str string | Lst "val list" | ObjectId nat | Nul

text \<open>A document (a Python dict with string keys) is a map from field names to values.\<close>

type_synonym doc = "string \<rightharpoonup> val"

text \<open>A query document such as \<open>{'system': s, 'itype': t, 'tag': g}\<close> or \<open>{'_id': id}\<close>.\<close>

type_synonym query = "(string \<times> val) list"

text \<open>
  What the code can raise: \<open>KeyError\<close> (a missing dict key), \<open>TypeError\<close>
  (subscripting \<open>None\<close>), the driver's \<open>DuplicateKeyError\<close>, and the errors of the three
  collaborators that are not part of the class: the authentication module, the celery
  broker (\<open>apply_async\<close>) and the worker function \<open>dopull\<close> called in-process.
\<close>

datatype exn = KeyError | TypeError | DuplicateKeyError | AuthError | BrokerError | WorkerError

text \<open>
  Equality match of one query field. A query value \<open>None\<close> also matches a document
  in which the field is missing. (Matching a scalar against an array field is not modelled.)
\<close>

definition field_eq :: "doc \<Rightarrow> string \<Rightarrow> val \<Rightarrow> bool" where
  "field_eq d k v = (d k = Some v \<or> (v = Nul \<and> d k = None))"

definition matches :: "query \<Rightarrow> doc \<Rightarrow> bool" where
  "matches q d = list_all (\<lambda>(k, v). field_eq d k v) q"

text \<open>\<open>collection.find_one(q)\<close>: the first matching document in insertion order, or \<open>None\<close>.\<close>

definition find_one :: "query \<Rightarrow> doc list \<Rightarrow> doc option" where
  "find_one q ds = List.find (matches q) ds"

text \<open>
  \<open>collection.update(q, {'$set': {k: v}})\<close>: sets the field in the first matching
  document and does nothing when no document matches.
\<close>

fun update_set :: "query \<Rightarrow> string \<Rightarrow> val \<Rightarrow> doc list \<Rightarrow> doc list" where
  "update_set q k v [] = []"
| "update_set q k v (d # ds) =
     (if matches q d then d(k \<mapsto> v) # ds else d # update_set q k v ds)"

text \<open>
  A new object id is one that no stored document carries. The driver's generator is
  not part of the repository; only its uniqueness is modelled.
\<close>

definition oid_num :: "doc \<Rightarrow> nat" where
  "oid_num d = (case d ''_id'' of Some (ObjectId n) \<Rightarrow> n | _ \<Rightarrow> 0)"

definition new_ObjectId :: "doc list \<Rightarrow> val" where
  "new_ObjectId ds = ObjectId (Suc (fold max (map oid_num ds) 0))"

text \<open>
  \<open>collection.insert(d)\<close>: a document without \<open>_id\<close> gets a new object id (the driver
  adds it to the caller's dict as well, so the document is returned too); a document
  whose \<open>_id\<close> is already stored is refused.
\<close>

definition mongo_insert :: "doc \<Rightarrow> doc list \<Rightarrow> exn + (doc \<times> doc list)" where
  "mongo_insert d ds =
     (case d ''_id'' of
        None \<Rightarrow> (let d' = d(''_id'' \<mapsto> new_ObjectId ds) in Inr (d', ds @ [d']))
      | Some i \<Rightarrow>
          if list_ex (\<lambda>e. e ''_id'' = Some i) ds then Inl DuplicateKeyError
          else Inr (d, ds @ [d]))"

subsection \<open>The manager's state and its collaborators\<close>

text \<open>
  A task handle in \<open>self.tasks\<close>: the \<open>AsyncResult\<close> returned by celery (identified by
  the position of its job in the broker's log), or, on the in-process path
  (\<open>delay=False\<close>), the record id itself.
\<close>

datatype handle = AsyncResult nat | Plain val

text \<open>
  \<open>images\<close>, \<open>tasks\<close> and \<open>task_image_id\<close> are the attributes of the class; \<open>sent\<close> is
  the log of the jobs accepted by the broker: queue name, request and TESTMODE.
\<close>

record mgr =
  images :: "doc list"
  tasks :: "handle list"
  task_image_id :: "handle \<rightharpoonup> val"
  sent :: "(val \<times> doc \<times> int) list"

text \<open>
  The collaborators at the time of a call: whether \<open>auth.authenticate\<close> returns for a
  token, whether the broker accepts a job, the state celery reports for a job, and
  whether an in-process \<open>dopull\<close> returns.
\<close>

record env =
  auth_ok :: "val \<Rightarrow> bool"
  broker_up :: bool
  task_state :: "nat \<Rightarrow> string"
  worker_ok :: bool

definition init :: mgr where
  "init = \<lparr>images = [], tasks = [], task_image_id = Map.empty, sent = []\<rparr>"

subsection \<open>The methods of imagemngr\<close>

text \<open>The dict literal \<open>{'system':image['system'],'itype':image['itype'],'tag':image['tag']}\<close>.\<close>

definition image_query :: "doc \<Rightarrow> exn + query" where
  "image_query img =
     (case img ''system'' of
        None \<Rightarrow> Inl KeyError
      | Some s \<Rightarrow>
          (case img ''itype'' of
             None \<Rightarrow> Inl KeyError
           | Some t \<Rightarrow>
               (case img ''tag'' of
                  None \<Rightarrow> Inl KeyError
                | Some g \<Rightarrow> Inr [(''system'', s), (''itype'', t), (''tag'', g)])))"

definition update_mongo_state :: "mgr \<Rightarrow> val \<Rightarrow> string \<Rightarrow> mgr" where
  "update_mongo_state st ident state =
     (let state' = (if state = ''SUCCESS'' then ''READY'' else state)
      in st\<lparr>images := update_set [(''_id'', ident)] ''status'' (Str state') (images st)\<rparr>)"

text \<open>
  The loop of \<open>update_states\<close> over \<open>self.tasks\<close>. The state is \<open>PENDING\<close> unless the
  handle is an \<open>AsyncResult\<close>; a handle missing from \<open>task_image_id\<close> raises.
\<close>

fun update_states_loop :: "env \<Rightarrow> handle list \<Rightarrow> mgr \<Rightarrow> (exn + unit) \<times> mgr" where
  "update_states_loop e [] st = (Inr (), st)"
| "update_states_loop e (req # reqs) st =
     (let state = (case req of AsyncResult n \<Rightarrow> task_state e n | Plain _ \<Rightarrow> ''PENDING'')
      in case task_image_id st req of
           None \<Rightarrow> (Inl KeyError, st)
         | Some ident \<Rightarrow> update_states_loop e reqs (update_mongo_state st ident state))"

definition update_states :: "env \<Rightarrow> mgr \<Rightarrow> (exn + unit) \<times> mgr" where
  "update_states e st = update_states_loop e (tasks st) st"

definition lookup :: "env \<Rightarrow> mgr \<Rightarrow> val \<Rightarrow> doc \<Rightarrow> (exn + doc option) \<times> mgr" where
  "lookup e st auth img =
     (if \<not> auth_ok e auth then (Inl AuthError, st)
      else case image_query img of
             Inl x \<Rightarrow> (Inl x, st)
           | Inr q \<Rightarrow>
               (case update_states e st of
                  (Inl x, st') \<Rightarrow> (Inl x, st')
                | (Inr _, st') \<Rightarrow> (Inr (find_one q (images st')), st')))"

definition isready :: "mgr \<Rightarrow> doc \<Rightarrow> exn + bool" where
  "isready st img =
     (case image_query img of
        Inl x \<Rightarrow> Inl x
      | Inr q \<Rightarrow>
          (case find_one q (images st) of
             None \<Rightarrow> Inr False
           | Some rec \<Rightarrow> Inr (rec ''status'' = Some (Str ''READY''))))"

definition default_image :: doc where
  "default_image =
     [''format'' \<mapsto> Str ''ext4'', ''arch'' \<mapsto> Str ''amd64'', ''os'' \<mapsto> Str ''linux'',
      ''location'' \<mapsto> Str '''', ''remotetype'' \<mapsto> Str ''dockerv2'',
      ''ostcount'' \<mapsto> Str ''0'', ''replication'' \<mapsto> Str ''1'',
      ''userAcl'' \<mapsto> Lst [], ''status'' \<mapsto> Str ''UNKNOWN'', ''groupAcl'' \<mapsto> Lst []]"

definition new_image_record :: "env \<Rightarrow> mgr \<Rightarrow> val \<Rightarrow> doc \<Rightarrow> (exn + doc) \<times> mgr" where
  "new_image_record e st auth img =
     (case lookup e st auth img of
        (Inl x, st') \<Rightarrow> (Inl x, st')
      | (Inr (Some recd), st') \<Rightarrow> (Inr recd, st')
      | (Inr None, st') \<Rightarrow>
          (case mongo_insert (default_image ++ img) (images st') of
             Inl x \<Rightarrow> (Inl x, st')
           | Inr (newimage, ds) \<Rightarrow> (Inr newimage, st'\<lparr>images := ds\<rparr>)))"

text \<open>\<open>rec.pop('_id',None)\<close>.\<close>

definition pop_id :: "doc \<Rightarrow> val" where
  "pop_id rec = (case rec ''_id'' of None \<Rightarrow> Nul | Some i \<Rightarrow> i)"

definition track :: "mgr \<Rightarrow> handle \<Rightarrow> val \<Rightarrow> mgr" where
  "track st pullreq ident =
     st\<lparr>task_image_id := (task_image_id st)(pullreq \<mapsto> ident), tasks := tasks st @ [pullreq]\<rparr>"

definition pull :: "env \<Rightarrow> mgr \<Rightarrow> val \<Rightarrow> doc \<Rightarrow> bool \<Rightarrow> int \<Rightarrow> (exn + val) \<times> mgr" where
  "pull e st auth request delay TESTMODE =
     (case isready st request of
        Inl x \<Rightarrow> (Inl x, st)
      | Inr ready \<Rightarrow>
          if ready = False then
            (case new_image_record e st auth request of
               (Inl x, st1) \<Rightarrow> (Inl x, st1)
             | (Inr rec, st1) \<Rightarrow>
                 (let ident = pop_id rec;
                      st2 = update_mongo_state st1 ident ''ENQUEUED''
                  in if delay then
                       (case request ''system'' of
                          None \<Rightarrow> (Inl KeyError, st2)
                        | Some queue \<Rightarrow>
                            if \<not> broker_up e then (Inl BrokerError, st2)
                            else
                              (let pullreq = AsyncResult (length (sent st2));
                                   st3 = st2\<lparr>sent := sent st2 @ [(queue, request, TESTMODE)]\<rparr>
                               in (Inr ident, track st3 pullreq ident)))
                     else if \<not> worker_ok e then (Inl WorkerError, st2)
                     else (Inr ident, track st2 (Plain ident) ident)))
          else
            (case new_image_record e st auth request of
               (Inl x, st1) \<Rightarrow> (Inl x, st1)
             | (Inr rec, st1) \<Rightarrow> (Inr (pop_id rec), st1)))"

definition get_state :: "env \<Rightarrow> mgr \<Rightarrow> val \<Rightarrow> (exn + val) \<times> mgr" where
  "get_state e st ident =
     (case update_states e st of
        (Inl x, st') \<Rightarrow> (Inl x, st')
      | (Inr _, st') \<Rightarrow>
          (case find_one [(''_id'', ident)] (images st') of
             None \<Rightarrow> (Inl TypeError, st')
           | Some d \<Rightarrow>
               (case d ''status'' of
                  None \<Rightarrow> (Inl KeyError, st')
                | Some s \<Rightarrow> (Inr s, st'))))"

definition expire :: "mgr \<Rightarrow> val \<Rightarrow> val \<Rightarrow> val \<Rightarrow> val \<Rightarrow> val \<Rightarrow> (exn + doc) \<times> mgr" where
  "expire st auth system type tag ident = (Inr Map.empty, st)"

subsection \<open>The API layer's rendering of a record\<close>

definition response_fields :: "string list" where
  "response_fields =
     [''id'', ''system'', ''itype'', ''tag'', ''status'', ''userAcl'', ''groupAcl'',
      ''ENV'', ''ENTRY'', ''WORKDIR'', ''last_pull'']"

definition create_response :: "doc \<Rightarrow> doc" where
  "create_response rec =
     fold (\<lambda>field resp.
             case rec field of
               Some v \<Rightarrow> resp(field \<mapsto> v)
             | None \<Rightarrow> resp(field \<mapsto> Str ''MISSING''))
          response_fields Map.empty"

subsection \<open>Sequences of operations\<close>

datatype op =
    Lookup val doc
  | Pull val doc bool int
  | Get_state val
  | Expire val val val val val

fun exec :: "env \<Rightarrow> op \<Rightarrow> mgr \<Rightarrow> mgr" where
  "exec e (Lookup auth img) st = snd (lookup e st auth img)"
| "exec e (Pull auth request delay tm) st = snd (pull e st auth request delay tm)"
| "exec e (Get_state ident) st = snd (get_state e st ident)"
| "exec e (Expire auth system type tag ident) st = snd (expire st auth system type tag ident)"

fun run :: "(env \<times> op) list \<Rightarrow> mgr \<Rightarrow> mgr" where
  "run [] st = st"
| "run ((e, c) # cs) st = run cs (exec e c st)"

subsection \<open>Invariants and auxiliary notions\<close>

text \<open>
  Every handle in \<open>self.tasks\<close> has an entry in \<open>self.task_image_id\<close> (\<open>pull\<close> adds
  both together), every stored document has an \<open>_id\<close> and no two share one (the
  database enforces it).
\<close>

definition tracked :: "mgr \<Rightarrow> bool" where
  "tracked st = list_all (\<lambda>t. task_image_id st t \<noteq> None) (tasks st)"

definition ids_ok :: "doc list \<Rightarrow> bool" where
  "ids_ok ds = (list_all (\<lambda>d. d ''_id'' \<noteq> None) ds \<and> distinct (map (\<lambda>d. d ''_id'') ds))"

definition image_key :: "doc \<Rightarrow> val option \<times> val option \<times> val option" where
  "image_key d = (d ''system'', d ''itype'', d ''tag'')"

definition keys_unique :: "doc list \<Rightarrow> bool" where
  "keys_unique ds = distinct (map image_key ds)"

definition has_status :: "doc list \<Rightarrow> bool" where
  "has_status ds = list_all (\<lambda>d. d ''status'' \<noteq> None) ds"

definition no_success :: "doc list \<Rightarrow> bool" where
  "no_success ds = list_all (\<lambda>d. d ''status'' \<noteq> Some (Str ''SUCCESS'')) ds"

text \<open>
  Two versions of a document that differ at most in the value of \<open>status\<close>; a
  \<open>$set\<close> of the status never removes the field.
\<close>

definition same_but_status :: "doc \<Rightarrow> doc \<Rightarrow> bool" where
  "same_but_status d d' =
     ((\<forall>k. k \<noteq> ''status'' \<longrightarrow> d' k = d k) \<and> (d ''status'' \<noteq> None \<longrightarrow> d' ''status'' \<noteq> None))"

text \<open>The field \<open>k\<close> of the record that \<open>find_one(q)\<close> returns, if there is one.\<close>

definition stored_field :: "mgr \<Rightarrow> query \<Rightarrow> string \<Rightarrow> val option" where
  "stored_field st q k = (case find_one q (images st) of None \<Rightarrow> None | Some d \<Rightarrow> d k)"

definition key_query :: "query \<Rightarrow> bool" where
  "key_query q = list_all (\<lambda>(k, v). k \<noteq> ''status'') q"

subsection \<open>Example inputs\<close>

definition edison_request :: doc where
  "edison_request =
     [''system'' \<mapsto> Str ''edison'', ''itype'' \<mapsto> Str ''docker'',
      ''tag'' \<mapsto> Str ''ubuntu:15.04'']"

definition edison_query :: query where
  "edison_query =
     [(''system'', Str ''edison''), (''itype'', Str ''docker''), (''tag'', Str ''ubuntu:15.04'')]"

text \<open>All collaborators work; every job is reported with the given state.\<close>

definition env_reporting :: "string \<Rightarrow> env" where
  "env_reporting s =
     \<lparr>auth_ok = (\<lambda>_. True), broker_up = True, task_state = (\<lambda>_. s), worker_ok = True\<rparr>"

text \<open>The broker refuses the job.\<close>

definition env_broker_down :: env where
  "env_broker_down =
     \<lparr>auth_ok = (\<lambda>_. True), broker_up = False, task_state = (\<lambda>_. ''PENDING''),
      worker_ok = True\<rparr>"

text \<open>A store holding one record for the example key, with the given status, and no task.\<close>

definition edison_record :: "string \<Rightarrow> doc" where
  "edison_record s =
     (default_image ++ edison_request)(''_id'' \<mapsto> ObjectId 1, ''status'' \<mapsto> Str s)"

definition one_record :: "string \<Rightarrow> mgr" where
  "one_record s =
     \<lparr>images = [edison_record s], tasks = [], task_image_id = Map.empty, sent = []\<rparr>"

text \<open>The manager after one pull of the example key on an empty store.\<close>

definition once_pulled :: mgr where
  "once_pulled = snd (pull (env_reporting ''PENDING'') init (Str ''good'') edison_request True 0)"

text \<open>Two pulls of the example key, then a status query while the jobs report success.\<close>

definition example_ops :: "(env \<times> op) list" where
  "example_ops =
     [(env_reporting ''PENDING'', Pull (Str ''good'') edison_request True 0),
      (env_reporting ''PENDING'', Pull (Str ''good'') edison_request True 0),
      (env_reporting ''SUCCESS'', Get_state (ObjectId 1))]"

text \<open>
  A record created with a caller-supplied \<open>format\<close> whose job is then reported as
  failed.
\<close>

definition squashfs_request :: doc where
  "squashfs_request = edison_request(''format'' \<mapsto> Str ''squashfs'')"

definition failed_squashfs :: mgr where
  "failed_squashfs =
     run [(env_reporting ''PENDING'', Pull (Str ''good'') squashfs_request True 0),
          (env_reporting ''FAILURE'', Get_state (ObjectId 1))] init"

text \<open>A pull whose request carries a \<open>status\<close> field of its own, then a lookup.\<close>

definition success_ops :: "(env \<times> op) list" where
  "success_ops =
     [(env_reporting ''SUCCESS'',
       Pull (Str ''good'') (edison_request(''status'' \<mapsto> Str ''SUCCESS'')) True 0),
      (env_reporting ''SUCCESS'', Lookup (Str ''good'') edison_request)]"

section \<open>Auxiliary facts\<close>

subsection \<open>Documents that differ only in their status\<close>

lemma same_but_status_refl: "same_but_status d d"
  by (simp add: same_but_status_def)

lemma same_but_status_trans:
  "same_but_status a b \<Longrightarrow> same_but_status b c \<Longrightarrow> same_but_status a c"
  by (simp add: same_but_status_def)

lemma same_but_status_upd: "same_but_status d (d(''status'' \<mapsto> v))"
  by (simp add: same_but_status_def)

lemma same_but_status_set:
  "same_but_status d d' \<Longrightarrow> d'(''status'' \<mapsto> v) = d(''status'' \<mapsto> v)"
  by (auto simp: same_but_status_def fun_eq_iff)

lemma same_but_status_pop_id: "same_but_status r r1 \<Longrightarrow> pop_id r1 = pop_id r"
  by (simp add: pop_id_def same_but_status_def)

lemma list_all2_sbs_trans:
  "list_all2 same_but_status xs ys \<Longrightarrow> list_all2 same_but_status ys zs \<Longrightarrow>
   list_all2 same_but_status xs zs"
  by (rule list_all2_trans [where ?P1.0 = same_but_status and ?P2.0 = same_but_status])
     (auto intro: same_but_status_trans)

lemma matches_same:
  "same_but_status d d' \<Longrightarrow> key_query q \<Longrightarrow> matches q d' = matches q d"
  by (induction q) (auto simp: matches_def key_query_def field_eq_def same_but_status_def)

lemma key_query_id [simp]: "key_query [(''_id'', i)]"
  by (simp add: key_query_def)

lemma image_query_key: "image_query img = Inr q \<Longrightarrow> key_query q"
  by (auto simp: image_query_def key_query_def split: option.splits)

lemma image_query_system:
  "image_query img = Inr q \<Longrightarrow> \<exists>s. img ''system'' = Some s"
  by (auto simp: image_query_def split: option.splits)

lemma find_one_rel:
  "list_all2 same_but_status ds ds' \<Longrightarrow> key_query q \<Longrightarrow>
   rel_option same_but_status (find_one q ds) (find_one q ds')"
  by (induction ds ds' rule: list_all2_induct) (auto simp: find_one_def matches_same)

lemma ids_rel:
  "list_all2 same_but_status ds ds' \<Longrightarrow> map (\<lambda>d. d ''_id'') ds' = map (\<lambda>d. d ''_id'') ds"
  by (induction ds ds' rule: list_all2_induct) (auto simp: same_but_status_def)

lemma keys_rel:
  "list_all2 same_but_status ds ds' \<Longrightarrow> map image_key ds' = map image_key ds"
  by (induction ds ds' rule: list_all2_induct) (auto simp: same_but_status_def image_key_def)

lemma ids_ok_alt:
  "ids_ok ds = (None \<notin> set (map (\<lambda>d. d ''_id'') ds) \<and> distinct (map (\<lambda>d. d ''_id'') ds))"
  by (induction ds) (auto simp: ids_ok_def)

lemma ids_ok_rel: "list_all2 same_but_status ds ds' \<Longrightarrow> ids_ok ds \<Longrightarrow> ids_ok ds'"
  by (simp add: ids_ok_alt ids_rel)

lemma keys_unique_rel: "list_all2 same_but_status ds ds' \<Longrightarrow> keys_unique ds \<Longrightarrow> keys_unique ds'"
  by (simp add: keys_unique_def keys_rel)

lemma has_status_rel: "list_all2 same_but_status ds ds' \<Longrightarrow> has_status ds \<Longrightarrow> has_status ds'"
  by (induction ds ds' rule: list_all2_induct) (auto simp: has_status_def same_but_status_def)

lemma new_ObjectId_rel:
  "list_all2 same_but_status ds ds' \<Longrightarrow> new_ObjectId ds' = new_ObjectId ds"
proof -
  assume "list_all2 same_but_status ds ds'"
  then have "map oid_num ds' = map oid_num ds"
    by (induction ds ds' rule: list_all2_induct) (auto simp: same_but_status_def oid_num_def)
  then show ?thesis by (simp add: new_ObjectId_def)
qed

subsection \<open>Queries and updates of the collection\<close>

lemma update_set_rel: "list_all2 same_but_status ds (update_set q ''status'' v ds)"
  by (induction ds) (auto simp: same_but_status_refl same_but_status_upd list_all2_refl)

lemma matches_id:
  "d ''_id'' \<noteq> None \<Longrightarrow> matches [(''_id'', i)] d = (d ''_id'' = Some i)"
  by (auto simp: matches_def field_eq_def)

lemma matches_id_both:
  "matches [(''_id'', i)] a \<Longrightarrow> matches [(''_id'', j)] a \<Longrightarrow> i = j"
  by (auto simp: matches_def field_eq_def)

lemma matches_id_upd:
  "matches [(''_id'', i)] (a(''status'' \<mapsto> v)) = matches [(''_id'', i)] a"
  by (simp add: matches_def field_eq_def)

lemma update_set_find:
  "find_one q ds = Some d \<Longrightarrow> ids_ok ds \<Longrightarrow> key_query q \<Longrightarrow>
   find_one q (update_set [(''_id'', pop_id d)] ''status'' v ds) = Some (d(''status'' \<mapsto> v))"
proof (induction ds)
  case Nil
  then show ?case by (simp add: find_one_def)
next
  case (Cons a ds)
  have ida: "a ''_id'' \<noteq> None" using Cons.prems(2) by (simp add: ids_ok_def)
  show ?case
  proof (cases "matches q a")
    case True
    then have da: "d = a" using Cons.prems(1) by (simp add: find_one_def)
    have "matches [(''_id'', pop_id a)] a" using ida by (auto simp: matches_id pop_id_def)
    moreover have "matches q (a(''status'' \<mapsto> v))"
      using True matches_same [OF same_but_status_upd Cons.prems(3)] by simp
    ultimately show ?thesis by (auto simp: da find_one_def fun_eq_iff)
  next
    case False
    then have f: "find_one q ds = Some d" using Cons.prems(1) by (simp add: find_one_def)
    then have "d \<in> set ds" by (auto simp: find_one_def find_Some_iff)
    then have "d ''_id'' \<in> set (map (\<lambda>d. d ''_id'') ds)" by auto
    moreover have "a ''_id'' \<notin> set (map (\<lambda>d. d ''_id'') ds)"
      using Cons.prems(2) by (simp add: ids_ok_def)
    ultimately have ne: "a ''_id'' \<noteq> d ''_id''" by metis
    have okds: "ids_ok ds" using Cons.prems(2) by (simp add: ids_ok_def)
    have "d ''_id'' \<noteq> None" using \<open>d \<in> set ds\<close> okds by (auto simp: ids_ok_def list_all_iff)
    then have "\<not> matches [(''_id'', pop_id d)] a"
      using ida ne by (auto simp: matches_id pop_id_def)
    then show ?thesis
      using False Cons.IH [OF f okds Cons.prems(3)] by (simp add: find_one_def)
  qed
qed

lemma find_id_update_other:
  "i \<noteq> j \<Longrightarrow>
   find_one [(''_id'', i)] (update_set [(''_id'', j)] ''status'' v ds) = find_one [(''_id'', i)] ds"
proof (induction ds)
  case Nil
  show ?case by simp
next
  case (Cons a ds)
  show ?case
  proof (cases "matches [(''_id'', j)] a")
    case True
    with Cons.prems have "\<not> matches [(''_id'', i)] a" using matches_id_both by blast
    with True show ?thesis by (simp add: find_one_def matches_id_upd)
  next
    case False
    with Cons show ?thesis by (simp add: find_one_def)
  qed
qed

lemma find_id_update_same:
  "find_one [(''_id'', i)] (update_set [(''_id'', i)] ''status'' v ds) =
   map_option (\<lambda>d. d(''status'' \<mapsto> v)) (find_one [(''_id'', i)] ds)"
  by (induction ds) (auto simp: find_one_def matches_id_upd)

lemma update_set_appended:
  assumes "find_one q ds = None" "matches q d" "key_query q"
    and "\<forall>a \<in> set ds. \<not> matches [(''_id'', i)] a" "matches [(''_id'', i)] d"
  shows "find_one q (update_set [(''_id'', i)] ''status'' v (ds @ [d])) = Some (d(''status'' \<mapsto> v))"
  using assms(1,4)
proof (induction ds)
  case Nil
  have "matches q (d(''status'' \<mapsto> v))"
    using assms(2) matches_same [OF same_but_status_upd assms(3)] by simp
  then show ?case using assms(5) by (auto simp: find_one_def fun_eq_iff)
next
  case (Cons a ds)
  then show ?case by (simp add: find_one_def split: if_splits)
qed

lemma update_set_append_last:
  "\<forall>a \<in> set ds. \<not> matches q a \<Longrightarrow> matches q d \<Longrightarrow>
   update_set q k v (ds @ [d]) = ds @ [d(k \<mapsto> v)]"
  by (induction ds) auto

lemma no_success_update_set:
  "no_success ds \<Longrightarrow> v \<noteq> Str ''SUCCESS'' \<Longrightarrow> no_success (update_set q ''status'' v ds)"
  by (induction ds) (auto simp: no_success_def)

lemma ids_ok_append:
  "ids_ok ds \<Longrightarrow> d ''_id'' \<noteq> None \<Longrightarrow> \<forall>a \<in> set ds. a ''_id'' \<noteq> d ''_id'' \<Longrightarrow> ids_ok (ds @ [d])"
  by (auto simp: ids_ok_def)

lemma matches_new_image:
  "image_query img = Inr q \<Longrightarrow> matches q ((default_image ++ img)(''_id'' \<mapsto> i))"
  by (auto simp: image_query_def matches_def field_eq_def map_add_def split: option.splits)

lemma new_key_fresh:
  assumes "image_query img = Inr q" "find_one q ds = None"
    and "\<forall>k. k \<noteq> ''_id'' \<longrightarrow> d k = (default_image ++ img) k"
  shows "image_key d \<notin> set (map image_key ds)"
proof
  assume "image_key d \<in> set (map image_key ds)"
  then obtain a where a: "a \<in> set ds" and k: "image_key a = image_key d" by auto
  from assms(1) obtain s t g where
    f: "img ''system'' = Some s" "img ''itype'' = Some t" "img ''tag'' = Some g"
    and q: "q = [(''system'', s), (''itype'', t), (''tag'', g)]"
    by (auto simp: image_query_def split: option.splits)
  from assms(3) f have "image_key d = (Some s, Some t, Some g)"
    by (simp add: image_key_def map_add_def)
  with k have "matches q a" by (simp add: q matches_def field_eq_def image_key_def)
  moreover from assms(2) a have "\<not> matches q a" by (simp add: find_one_def find_None_iff)
  ultimately show False by blast
qed

subsection \<open>New object ids\<close>

lemma fold_max_ge: "(m::nat) \<le> fold max xs m"
  by (induction xs arbitrary: m) (auto intro: order_trans [OF max.cobounded2])

lemma fold_max_mem: "(x::nat) \<in> set xs \<Longrightarrow> x \<le> fold max xs m"
proof (induction xs arbitrary: m)
  case Nil
  then show ?case by simp
next
  case (Cons a xs)
  show ?case
  proof (cases "x = a")
    case True
    have "a \<le> max a m" by simp
    also have "\<dots> \<le> fold max xs (max a m)" by (rule fold_max_ge)
    finally show ?thesis using True by simp
  next
    case False
    then show ?thesis using Cons by simp
  qed
qed

lemma new_ObjectId_fresh: "d \<in> set ds \<Longrightarrow> d ''_id'' \<noteq> Some (new_ObjectId ds)"
proof
  assume d: "d \<in> set ds" and eq: "d ''_id'' = Some (new_ObjectId ds)"
  then have "oid_num d = Suc (fold max (map oid_num ds) 0)"
    by (simp add: oid_num_def new_ObjectId_def)
  moreover have "oid_num d \<le> fold max (map oid_num ds) 0"
    using d by (intro fold_max_mem) simp
  ultimately show False by simp
qed

lemma fresh_no_match:
  "\<forall>a \<in> set ds. \<not> matches [(''_id'', new_ObjectId ds)] a"
proof
  fix a assume a: "a \<in> set ds"
  have "new_ObjectId ds \<noteq> Nul" by (simp add: new_ObjectId_def)
  with new_ObjectId_fresh [OF a] show "\<not> matches [(''_id'', new_ObjectId ds)] a"
    by (simp add: matches_def field_eq_def)
qed

subsection \<open>Status writes and the refresh of the tracked tasks\<close>

lemma ums_fields [simp]:
  "tasks (update_mongo_state st i s) = tasks st"
  "task_image_id (update_mongo_state st i s) = task_image_id st"
  "sent (update_mongo_state st i s) = sent st"
  by (simp_all add: update_mongo_state_def)

lemma ums_rel: "list_all2 same_but_status (images st) (images (update_mongo_state st i s))"
  by (simp add: update_mongo_state_def update_set_rel)

lemma ums_images:
  "images (update_mongo_state (st\<lparr>sent := x\<rparr>) i s) = images (update_mongo_state st i s)"
  by (simp add: update_mongo_state_def Let_def)

lemma loop_fields:
  "tasks (snd (update_states_loop e ts st)) = tasks st \<and>
   task_image_id (snd (update_states_loop e ts st)) = task_image_id st \<and>
   sent (snd (update_states_loop e ts st)) = sent st"
  by (induction ts arbitrary: st) (auto split: option.splits)

lemma loop_rel:
  "list_all2 same_but_status (images st) (images (snd (update_states_loop e ts st)))"
proof (induction ts arbitrary: st)
  case Nil
  show ?case by (simp add: list_all2_refl same_but_status_refl)
next
  case (Cons t ts)
  show ?case
  proof (cases "task_image_id st t")
    case None
    then show ?thesis by (simp add: list_all2_refl same_but_status_refl)
  next
    case (Some i)
    then show ?thesis
      using list_all2_sbs_trans [OF ums_rel Cons.IH] by simp
  qed
qed

lemma loop_ok:
  "list_all (\<lambda>t. task_image_id st t \<noteq> None) ts \<Longrightarrow> fst (update_states_loop e ts st) = Inr ()"
  by (induction ts arbitrary: st) (auto split: option.splits)

lemma loop_untouched:
  "\<forall>t \<in> set ts. task_image_id st t \<noteq> Some i \<Longrightarrow>
   find_one [(''_id'', i)] (images (snd (update_states_loop e ts st))) =
   find_one [(''_id'', i)] (images st)"
proof (induction ts arbitrary: st)
  case Nil
  show ?case by simp
next
  case (Cons t ts)
  show ?case
  proof (cases "task_image_id st t")
    case None
    then show ?thesis by simp
  next
    case (Some j)
    with Cons.prems have ne: "i \<noteq> j" by auto
    have "\<forall>t \<in> set ts. task_image_id (update_mongo_state st j s) t \<noteq> Some i" for s
      using Cons.prems by simp
    from Cons.IH [OF this] Some show ?thesis
      by (simp add: Let_def) (simp add: update_mongo_state_def find_id_update_other [OF ne])
  qed
qed

lemma loop_append:
  "list_all (\<lambda>t. task_image_id st t \<noteq> None) ts \<Longrightarrow>
   update_states_loop e (ts @ us) st = update_states_loop e us (snd (update_states_loop e ts st))"
  by (induction ts arbitrary: st) (auto split: option.splits)

lemma loop_fold:
  "task_image_id st = m \<Longrightarrow> list_all (\<lambda>t. m t \<noteq> None) ts \<Longrightarrow>
   snd (update_states_loop e ts st) =
   fold (\<lambda>t s. case m t of
                 None \<Rightarrow> s
               | Some j \<Rightarrow> update_mongo_state s j
                             (case t of AsyncResult n \<Rightarrow> task_state e n | Plain x \<Rightarrow> ''PENDING''))
        ts st"
  by (induction ts arbitrary: st) (auto simp: Let_def)

lemma update_states_ok: "tracked st \<Longrightarrow> fst (update_states e st) = Inr ()"
  by (simp add: tracked_def update_states_def loop_ok)

lemma update_states_fields:
  "tasks (snd (update_states e st)) = tasks st"
  "task_image_id (snd (update_states e st)) = task_image_id st"
  "sent (snd (update_states e st)) = sent st"
  by (simp_all add: update_states_def loop_fields)

lemma update_states_rel:
  "list_all2 same_but_status (images st) (images (snd (update_states e st)))"
  by (simp add: update_states_def loop_rel)

lemma length_refresh: "length (images (snd (update_states e st))) = length (images st)"
  using update_states_rel [of st e] by (simp add: list_all2_lengthD)

lemma find_one_refresh:
  assumes "key_query q" "find_one q (images st) = Some r"
  shows "\<exists>r1. find_one q (images (snd (update_states e st))) = Some r1 \<and> same_but_status r r1"
  using find_one_rel [OF update_states_rel [of st e] assms(1)] assms(2)
  by (auto simp: option_rel_Some1)

lemma find_one_refresh_None:
  assumes "key_query q" "find_one q (images st) = None"
  shows "find_one q (images (snd (update_states e st))) = None"
  using find_one_rel [OF update_states_rel [of st e] assms(1)] assms(2)
  by auto

lemma refresh_no_task:
  assumes "\<forall>t \<in> set (tasks st). task_image_id st t \<noteq> Some i"
  shows "find_one [(''_id'', i)] (images (snd (update_states e st))) =
         find_one [(''_id'', i)] (images st)"
  using loop_untouched [OF assms, of e] by (simp add: update_states_def)

lemma refresh_last_task:
  assumes "tracked st" "find_one [(''_id'', i)] (images st) = Some d"
    and split: "tasks st = ts @ t # us" and ti: "task_image_id st t = Some i"
    and rest: "\<forall>u \<in> set us. task_image_id st u \<noteq> Some i"
  shows "find_one [(''_id'', i)] (images (snd (update_states e st))) =
              Some (d(''status'' \<mapsto>
                 Str (let state = (case t of AsyncResult n \<Rightarrow> task_state e n
                                          | Plain x \<Rightarrow> ''PENDING'')
                      in if state = ''SUCCESS'' then ''READY'' else state)))"
proof -
  let ?s1 = "snd (update_states_loop e ts st)"
  let ?state = "case t of AsyncResult n \<Rightarrow> task_state e n | Plain x \<Rightarrow> ''PENDING''"
  let ?s2 = "update_mongo_state ?s1 i ?state"
  have tr: "list_all (\<lambda>t. task_image_id st t \<noteq> None) ts"
    using assms(1) split by (simp add: tracked_def)
  have m1: "task_image_id ?s1 = task_image_id st" by (simp add: loop_fields)
  from find_one_rel [OF loop_rel [of st e ts], of "[(''_id'', i)]"] assms(2)
  obtain d1 where d1: "find_one [(''_id'', i)] (images ?s1) = Some d1"
    and sb: "same_but_status d d1" by (auto simp: option_rel_Some1)
  have "update_states e st = update_states_loop e (t # us) ?s1"
    by (simp add: update_states_def split loop_append [OF tr])
  also have "\<dots> = update_states_loop e us ?s2"
    by (simp add: m1 ti Let_def)
  finally have u: "update_states e st = update_states_loop e us ?s2" .
  have "\<forall>u \<in> set us. task_image_id ?s2 u \<noteq> Some i" using rest by (simp add: m1)
  from loop_untouched [OF this, of e]
  have "find_one [(''_id'', i)] (images (snd (update_states e st))) =
        find_one [(''_id'', i)] (images ?s2)" by (simp add: u)
  also have "\<dots> = Some (d1(''status'' \<mapsto> Str (if ?state = ''SUCCESS'' then ''READY'' else ?state)))"
    by (simp add: update_mongo_state_def Let_def find_id_update_same d1)
  finally show ?thesis by (simp add: same_but_status_set [OF sb] Let_def)
qed

lemma refresh_ready_kept:
  assumes "tracked st" "find_one [(''_id'', i)] (images st) = Some d"
    and rdy: "d ''status'' = Some (Str ''READY'')"
    and succ: "\<forall>t \<in> set (tasks st). task_image_id st t = Some i \<longrightarrow>
                 (\<exists>n. t = AsyncResult n \<and> task_state e n = ''SUCCESS'')"
  shows "find_one [(''_id'', i)] (images (snd (update_states e st))) = Some d"
proof (cases "\<exists>t \<in> set (tasks st). task_image_id st t = Some i")
  case False
  then show ?thesis using refresh_no_task [of st i e] assms(2) by simp
next
  case True
  from split_list_last_prop [OF True] obtain ts t us where
    sp: "tasks st = ts @ t # us" and ti: "task_image_id st t = Some i"
    and rest: "\<forall>u \<in> set us. task_image_id st u \<noteq> Some i" by blast
  from succ sp ti obtain n where t: "t = AsyncResult n" and s: "task_state e n = ''SUCCESS''"
    by auto
  have "d(''status'' \<mapsto> Str ''READY'') = d" using rdy by (auto simp: fun_eq_iff)
  with refresh_last_task [OF assms(1,2) sp ti rest, of e] t s show ?thesis by simp
qed

lemma keys_unique_refresh:
  "keys_unique (images st) \<Longrightarrow> keys_unique (images (snd (update_states e st)))"
  by (rule keys_unique_rel [OF update_states_rel])

lemma keys_unique_ums:
  "keys_unique (images st) \<Longrightarrow> keys_unique (images (update_mongo_state st i s))"
  by (rule keys_unique_rel [OF ums_rel])

lemma no_success_ums:
  "no_success (images st) \<Longrightarrow> no_success (images (update_mongo_state st i s))"
  by (simp add: update_mongo_state_def Let_def no_success_update_set)

lemma no_success_loop:
  "no_success (images st) \<Longrightarrow> no_success (images (snd (update_states_loop e ts st)))"
  by (induction ts arbitrary: st) (auto simp: no_success_ums Let_def split: option.splits)

lemma no_success_refresh:
  "no_success (images st) \<Longrightarrow> no_success (images (snd (update_states e st)))"
  by (simp add: update_states_def no_success_loop)

lemma ids_ok_refresh: "ids_ok (images st) \<Longrightarrow> ids_ok (images (snd (update_states e st)))"
  by (rule ids_ok_rel [OF update_states_rel])

lemma ids_ok_ums: "ids_ok (images st) \<Longrightarrow> ids_ok (images (update_mongo_state st i s))"
  by (rule ids_ok_rel [OF ums_rel])

lemma has_status_refresh:
  "has_status (images st) \<Longrightarrow> has_status (images (snd (update_states e st)))"
  by (rule has_status_rel [OF update_states_rel])

lemma has_status_ums:
  "has_status (images st) \<Longrightarrow> has_status (images (update_mongo_state st i s))"
  by (rule has_status_rel [OF ums_rel])

lemma tracked_cong:
  "tasks st' = tasks st \<Longrightarrow> task_image_id st' = task_image_id st \<Longrightarrow> tracked st' = tracked st"
  by (simp add: tracked_def)

lemma tracked_refresh: "tracked (snd (update_states e st)) = tracked st"
  by (rule tracked_cong) (simp_all add: update_states_fields)

lemma tracked_ums: "tracked (update_mongo_state st i s) = tracked st"
  by (rule tracked_cong) simp_all

lemma tracked_track: "tracked st \<Longrightarrow> tracked (track st h i)"
  by (auto simp: tracked_def track_def list_all_iff)

subsection \<open>lookup, new_image_record and pull\<close>

lemma lookup_tracked:
  assumes "auth_ok e auth" "image_query img = Inr q" "tracked st"
  shows "lookup e st auth img =
         (Inr (find_one q (images (snd (update_states e st)))), snd (update_states e st))"
proof -
  obtain r st' where u: "update_states e st = (r, st')" by (cases "update_states e st")
  with update_states_ok [OF assms(3), of e] have "r = Inr ()" by simp
  with u assms show ?thesis by (simp add: lookup_def)
qed

lemma lookup_state:
  "snd (lookup e st auth img) = st \<or> snd (lookup e st auth img) = snd (update_states e st)"
  by (auto simp: lookup_def split: sum.splits prod.splits)

lemma get_state_state: "snd (get_state e st i) = snd (update_states e st)"
  by (auto simp: get_state_def split: sum.splits prod.splits option.splits)

lemma isready_None:
  "image_query request = Inr q \<Longrightarrow> find_one q (images st) = None \<Longrightarrow> isready st request = Inr False"
  by (simp add: isready_def)

lemma isready_Some:
  "image_query request = Inr q \<Longrightarrow> find_one q (images st) = Some r \<Longrightarrow>
   isready st request = Inr (r ''status'' = Some (Str ''READY''))"
  by (simp add: isready_def)

lemma new_image_record_existing:
  assumes "auth_ok e auth" "image_query img = Inr q" "tracked st"
    and "find_one q (images st) = Some r"
  shows "\<exists>r1. new_image_record e st auth img = (Inr r1, snd (update_states e st)) \<and>
           find_one q (images (snd (update_states e st))) = Some r1 \<and> same_but_status r r1"
proof -
  from find_one_refresh [OF image_query_key [OF assms(2)] assms(4), of e]
  obtain r1 where r1: "find_one q (images (snd (update_states e st))) = Some r1"
    "same_but_status r r1" by blast
  then show ?thesis
    by (simp add: new_image_record_def lookup_tracked [OF assms(1-3)])
qed

lemma new_image_record_new:
  assumes "auth_ok e auth" "image_query img = Inr q" "tracked st"
    and "find_one q (images st) = None" "img ''_id'' = None"
  shows "new_image_record e st auth img =
     (Inr ((default_image ++ img)(''_id'' \<mapsto> new_ObjectId (images st))),
      (snd (update_states e st))
        \<lparr>images := images (snd (update_states e st)) @
                    [(default_image ++ img)(''_id'' \<mapsto> new_ObjectId (images st))]\<rparr>)"
proof -
  have n: "find_one q (images (snd (update_states e st))) = None"
    by (rule find_one_refresh_None [OF image_query_key [OF assms(2)] assms(4)])
  have i: "(default_image ++ img) ''_id'' = None"
    using assms(5) by (simp add: map_add_def default_image_def)
  show ?thesis
    by (simp add: new_image_record_def lookup_tracked [OF assms(1-3)] mongo_insert_def Let_def
        n i new_ObjectId_rel [OF update_states_rel [of st e]])
qed

lemma find_one_append_new:
  "find_one q ds = None \<Longrightarrow> matches q d \<Longrightarrow> find_one q (ds @ [d]) = Some d"
  by (induction ds) (auto simp: find_one_def split: if_splits)

lemma new_image_record_status:
  assumes "auth_ok e auth" "image_query img = Inr q" "tracked st"
    and "find_one q (images st) = None" "img ''_id'' = None"
  shows "stored_field (snd (new_image_record e st auth img)) q ''status'' =
         Some (case img ''status'' of None \<Rightarrow> Str ''UNKNOWN'' | Some v \<Rightarrow> v)"
proof -
  have n: "find_one q (images (snd (update_states e st))) = None"
    by (rule find_one_refresh_None [OF image_query_key [OF assms(2)] assms(4)])
  have s: "(default_image ++ img) ''status'' =
           Some (case img ''status'' of None \<Rightarrow> Str ''UNKNOWN'' | Some v \<Rightarrow> v)"
    by (simp add: map_add_def default_image_def split: option.split)
  show ?thesis
    using find_one_append_new [OF n matches_new_image [OF assms(2)], of "new_ObjectId (images st)"] s
    by (simp add: new_image_record_new [OF assms] stored_field_def)
qed

lemma new_image_record_cases:
  "(\<exists>x. new_image_record e st auth img = (Inl x, st)) \<or>
   (\<exists>x. new_image_record e st auth img = (Inl x, snd (update_states e st))) \<or>
   (\<exists>r q. image_query img = Inr q \<and> find_one q (images (snd (update_states e st))) = Some r \<and>
      new_image_record e st auth img = (Inr r, snd (update_states e st))) \<or>
   (\<exists>q d. image_query img = Inr q \<and> find_one q (images (snd (update_states e st))) = None \<and>
      (\<forall>k. k \<noteq> ''_id'' \<longrightarrow> d k = (default_image ++ img) k) \<and> d ''_id'' \<noteq> None \<and>
      (\<forall>a \<in> set (images (snd (update_states e st))). a ''_id'' \<noteq> d ''_id'') \<and>
      new_image_record e st auth img =
        (Inr d, (snd (update_states e st))
                  \<lparr>images := images (snd (update_states e st)) @ [d]\<rparr>))"
proof (cases "auth_ok e auth")
  case False
  then show ?thesis by (simp add: new_image_record_def lookup_def)
next
  case auth: True
  show ?thesis
  proof (cases "image_query img")
    case (Inl x)
    with auth show ?thesis by (simp add: new_image_record_def lookup_def)
  next
    case (Inr q)
    obtain r st' where u: "update_states e st = (r, st')" by (cases "update_states e st")
    show ?thesis
    proof (cases r)
      case (Inl x)
      with auth Inr u show ?thesis by (simp add: new_image_record_def lookup_def)
    next
      case ok: (Inr y)
      show ?thesis
      proof (cases "find_one q (images st')")
        case (Some d)
        with auth Inr u ok show ?thesis by (simp add: new_image_record_def lookup_def)
      next
        case None
        show ?thesis
        proof (cases "(default_image ++ img) ''_id''")
          case noid: None
          let ?d = "(default_image ++ img)(''_id'' \<mapsto> new_ObjectId (images st'))"
          have "new_image_record e st auth img = (Inr ?d, st'\<lparr>images := images st' @ [?d]\<rparr>)"
            using auth Inr u ok None
            by (simp add: new_image_record_def lookup_def mongo_insert_def Let_def noid)
          moreover have "\<forall>a \<in> set (images st'). a ''_id'' \<noteq> ?d ''_id''"
            using new_ObjectId_fresh by simp
          ultimately show ?thesis using Inr None u by auto
        next
          case (Some i)
          show ?thesis
          proof (cases "list_ex (\<lambda>a. a ''_id'' = Some i) (images st')")
            case True
            then show ?thesis using auth Inr u ok None
              by (simp add: new_image_record_def lookup_def mongo_insert_def Some)
          next
            case False
            let ?d = "default_image ++ img"
            have "new_image_record e st auth img = (Inr ?d, st'\<lparr>images := images st' @ [?d]\<rparr>)"
              using auth Inr u ok None False
              by (simp add: new_image_record_def lookup_def mongo_insert_def Some)
            moreover have "\<forall>a \<in> set (images st'). a ''_id'' \<noteq> ?d ''_id''"
              using False Some by (simp add: list_ex_iff)
            ultimately show ?thesis using Inr None u Some by auto
          qed
        qed
      qed
    qed
  qed
qed

lemma pull_ready:
  assumes "auth_ok e auth" "image_query request = Inr q" "tracked st"
    and "find_one q (images st) = Some r" "r ''status'' = Some (Str ''READY'')"
  shows "pull e st auth request delay tm = (Inr (pop_id r), snd (update_states e st))"
proof -
  from new_image_record_existing [OF assms(1-4)] obtain r1 where
    n: "new_image_record e st auth request = (Inr r1, snd (update_states e st))"
    and s: "same_but_status r r1" by blast
  have "isready st request = Inr True" using assms by (simp add: isready_def)
  then show ?thesis using n same_but_status_pop_id [OF s] by (simp add: pull_def)
qed

lemma pull_not_ready:
  assumes "auth_ok e auth" "image_query request = Inr q" "tracked st"
    and "find_one q (images st) = Some r" "r ''status'' \<noteq> Some (Str ''READY'')"
    and "broker_up e" "request ''system'' = Some queue"
  shows "pull e st auth request True tm =
     (Inr (pop_id r),
      track ((update_mongo_state (snd (update_states e st)) (pop_id r) ''ENQUEUED'')
               \<lparr>sent := sent st @ [(queue, request, tm)]\<rparr>)
            (AsyncResult (length (sent st))) (pop_id r))"
proof -
  from new_image_record_existing [OF assms(1-4)] obtain r1 where
    n: "new_image_record e st auth request = (Inr r1, snd (update_states e st))"
    and s: "same_but_status r r1" by blast
  have "isready st request = Inr False" using assms by (simp add: isready_def)
  then show ?thesis
    using n same_but_status_pop_id [OF s] assms(6,7)
    by (simp add: pull_def Let_def update_states_fields)
qed

lemma pull_not_ready_record:
  assumes "image_query request = Inr q" "find_one q (images st) = Some r" "ids_ok (images st)"
  shows "find_one q (images (update_mongo_state (snd (update_states e st)) (pop_id r) ''ENQUEUED''))
         = Some (r(''status'' \<mapsto> Str ''ENQUEUED''))"
proof -
  have k: "key_query q" by (rule image_query_key [OF assms(1)])
  from find_one_refresh [OF k assms(2), of e] obtain r1 where
    r1: "find_one q (images (snd (update_states e st))) = Some r1" and s: "same_but_status r r1"
    by blast
  have ok: "ids_ok (images (snd (update_states e st)))"
    by (rule ids_ok_rel [OF update_states_rel assms(3)])
  from update_set_find [OF r1 ok k, of "Str ''ENQUEUED''"]
  show ?thesis
    by (simp add: update_mongo_state_def same_but_status_pop_id [OF s] same_but_status_set [OF s])
qed

lemma pull_after_record:
  assumes "isready st request = Inr False" "new_image_record e st auth request = (Inr rec, st1)"
    and "request ''system'' = Some queue"
  shows "pull e st auth request True tm =
     (if broker_up e
      then (Inr (pop_id rec),
            track ((update_mongo_state st1 (pop_id rec) ''ENQUEUED'')
                     \<lparr>sent := sent st1 @ [(queue, request, tm)]\<rparr>)
                  (AsyncResult (length (sent st1))) (pop_id rec))
      else (Inl BrokerError, update_mongo_state st1 (pop_id rec) ''ENQUEUED''))"
  using assms by (simp add: pull_def Let_def)

lemma pull_new_record:
  assumes "image_query img = Inr q" "find_one q (images st) = None"
  shows "find_one q (images (update_mongo_state
            ((snd (update_states e st))
               \<lparr>images := images (snd (update_states e st)) @
                           [(default_image ++ img)(''_id'' \<mapsto> new_ObjectId (images st))]\<rparr>)
            (new_ObjectId (images st)) ''ENQUEUED''))
         = Some ((default_image ++ img)(''_id'' \<mapsto> new_ObjectId (images st),
                                         ''status'' \<mapsto> Str ''ENQUEUED''))"
proof -
  let ?ds = "images (snd (update_states e st))"
  have k: "key_query q" by (rule image_query_key [OF assms(1)])
  have n: "find_one q ?ds = None" by (rule find_one_refresh_None [OF k assms(2)])
  have eq: "new_ObjectId ?ds = new_ObjectId (images st)"
    by (rule new_ObjectId_rel [OF update_states_rel])
  have f: "\<forall>a \<in> set ?ds. \<not> matches [(''_id'', new_ObjectId (images st))] a"
    using fresh_no_match [of ?ds] by (simp add: eq)
  have m: "matches [(''_id'', new_ObjectId (images st))]
             ((default_image ++ img)(''_id'' \<mapsto> new_ObjectId (images st)))"
    by (simp add: matches_def field_eq_def)
  from update_set_appended [OF n matches_new_image [OF assms(1)] k f m]
  show ?thesis by (simp add: update_mongo_state_def)
qed

lemma pull_state_cases:
  "snd (pull e st auth request delay tm) = st \<or>
   (\<exists>x st1. new_image_record e st auth request = (Inl x, st1) \<and>
      snd (pull e st auth request delay tm) = st1) \<or>
   (\<exists>rec st1. new_image_record e st auth request = (Inr rec, st1) \<and>
      isready st request = Inr True \<and> snd (pull e st auth request delay tm) = st1) \<or>
   (\<exists>rec st1. new_image_record e st auth request = (Inr rec, st1) \<and>
      (snd (pull e st auth request delay tm) = update_mongo_state st1 (pop_id rec) ''ENQUEUED'' \<or>
       (\<exists>h x. snd (pull e st auth request delay tm) =
          track ((update_mongo_state st1 (pop_id rec) ''ENQUEUED'')\<lparr>sent := x\<rparr>) h (pop_id rec)) \<or>
       (\<exists>h. snd (pull e st auth request delay tm) =
          track (update_mongo_state st1 (pop_id rec) ''ENQUEUED'') h (pop_id rec))))"
proof (cases "isready st request")
  case (Inl x)
  then show ?thesis by (simp add: pull_def)
next
  case (Inr ready)
  obtain r st1 where n: "new_image_record e st auth request = (r, st1)"
    by (cases "new_image_record e st auth request")
  show ?thesis
  proof (cases r)
    case (Inl x)
    with Inr n show ?thesis by (simp add: pull_def)
  next
    case rec: (Inr rec)
    show ?thesis
    proof (cases ready)
      case True
      with Inr n rec show ?thesis by (simp add: pull_def)
    next
      case False
      with Inr n rec show ?thesis
        by (auto simp: pull_def Let_def split: option.splits)
    qed
  qed
qed

lemma pop_id_new [simp]: "pop_id (d(''_id'' \<mapsto> i)) = i"
  by (simp add: pop_id_def)

lemma pop_id_case: "pop_id r = (case r ''_id'' of None \<Rightarrow> Nul | Some i \<Rightarrow> i)"
  by (simp add: pop_id_def)

lemma track_fields [simp]:
  "images (track st h i) = images st" "sent (track st h i) = sent st"
  "tasks (track st h i) = tasks st @ [h]"
  "task_image_id (track st h i) = (task_image_id st)(h \<mapsto> i)"
  by (simp_all add: track_def)

subsection \<open>Invariants of operation sequences\<close>

text \<open>
  The well-formedness conditions assumed below hold in every state that the operations
  reach from a well-formed one, the empty manager included.
\<close>

lemma keys_unique_new_image_record:
  assumes "keys_unique (images st)"
  shows "keys_unique (images (snd (new_image_record e st auth img)))"
  using new_image_record_cases [of e st auth img]
proof (elim disjE exE conjE)
  fix q d
  assume "image_query img = Inr q" "find_one q (images (snd (update_states e st))) = None"
    "\<forall>k. k \<noteq> ''_id'' \<longrightarrow> d k = (default_image ++ img) k"
    and n: "new_image_record e st auth img =
        (Inr d, (snd (update_states e st))\<lparr>images := images (snd (update_states e st)) @ [d]\<rparr>)"
  from new_key_fresh [OF this(1-3)] keys_unique_refresh [OF assms, of e]
  show ?thesis by (simp add: n keys_unique_def)
qed (simp_all add: assms keys_unique_refresh)

lemma keys_unique_pull:
  assumes "keys_unique (images st)"
  shows "keys_unique (images (snd (pull e st auth request delay tm)))"
proof -
  have n: "keys_unique (images st1)" if "new_image_record e st auth request = (r, st1)" for r st1
    using keys_unique_new_image_record [OF assms, of e auth request] that by simp
  from pull_state_cases [of e st auth request delay tm] show ?thesis
    by (elim disjE exE conjE) (auto simp: assms ums_images intro: n keys_unique_ums)
qed

lemma keys_unique_exec: "keys_unique (images st) \<Longrightarrow> keys_unique (images (exec e c st))"
proof (cases c)
  case (Lookup auth img)
  assume "keys_unique (images st)"
  then show ?thesis using lookup_state [of e st auth img] Lookup
    by (auto simp: keys_unique_refresh)
next
  case (Pull auth request delay tm)
  assume "keys_unique (images st)"
  then show ?thesis using Pull by (simp add: keys_unique_pull)
next
  case (Get_state i)
  assume "keys_unique (images st)"
  then show ?thesis using Get_state by (simp add: get_state_state keys_unique_refresh)
next
  case (Expire a b c d f)
  assume "keys_unique (images st)"
  then show ?thesis using Expire by (simp add: expire_def)
qed

lemma keys_unique_run: "keys_unique (images st) \<Longrightarrow> keys_unique (images (run cs st))"
  by (induction cs arbitrary: st) (auto simp: keys_unique_exec)

lemma new_image_record_inv:
  assumes ok: "ids_ok (images st)" and ns: "no_success (images st)"
    and n: "new_image_record e st auth img = (r, st1)"
  shows "ids_ok (images st1) \<and>
         (case r of
            Inl x \<Rightarrow> no_success (images st1)
          | Inr rec \<Rightarrow>
              no_success (images (update_mongo_state st1 (pop_id rec) ''ENQUEUED'')) \<and>
              (isready st img = Inr True \<longrightarrow> no_success (images st1)))"
  using new_image_record_cases [of e st auth img]
proof (elim disjE exE conjE)
  fix x assume "new_image_record e st auth img = (Inl x, st)"
  with n ok ns show ?thesis by auto
next
  fix x assume "new_image_record e st auth img = (Inl x, snd (update_states e st))"
  with n ok ns show ?thesis by (auto simp: ids_ok_refresh no_success_refresh)
next
  fix rec q assume "new_image_record e st auth img = (Inr rec, snd (update_states e st))"
  with n ok ns show ?thesis by (auto simp: ids_ok_refresh no_success_refresh no_success_ums)
next
  fix q d
  let ?ds = "images (snd (update_states e st))"
  assume q: "image_query img = Inr q" and none: "find_one q ?ds = None"
    and did: "d ''_id'' \<noteq> None" and fresh: "\<forall>a \<in> set ?ds. a ''_id'' \<noteq> d ''_id''"
    and eq: "new_image_record e st auth img = (Inr d, (snd (update_states e st))\<lparr>images := ?ds @ [d]\<rparr>)"
  from did obtain i where i: "d ''_id'' = Some i" by auto
  have okds: "ids_ok ?ds" by (rule ids_ok_refresh [OF ok])
  have nsds: "no_success ?ds" by (rule no_success_refresh [OF ns])
  have nm: "\<forall>a \<in> set ?ds. \<not> matches [(''_id'', i)] a"
  proof
    fix a assume a: "a \<in> set ?ds"
    with okds have "a ''_id'' \<noteq> None" by (auto simp: ids_ok_def list_all_iff)
    with fresh a i show "\<not> matches [(''_id'', i)] a" by (simp add: matches_id)
  qed
  have m: "matches [(''_id'', i)] d" using i by (simp add: matches_def field_eq_def)
  have p: "pop_id d = i" using i by (simp add: pop_id_def)
  have upd: "no_success (update_set [(''_id'', i)] ''status'' (Str ''ENQUEUED'') (?ds @ [d]))"
    using nsds by (simp add: update_set_append_last [OF nm m] no_success_def)
  have notready: "isready st img \<noteq> Inr True"
  proof
    assume "isready st img = Inr True"
    with q obtain r0 where "find_one q (images st) = Some r0"
      by (auto simp: isready_def split: option.splits)
    from find_one_refresh [OF image_query_key [OF q] this, of e] none show False by simp
  qed
  from n eq have r: "r = Inr d" and st1: "st1 = (snd (update_states e st))\<lparr>images := ?ds @ [d]\<rparr>"
    by simp_all
  have app: "ids_ok (?ds @ [d])"
    using okds did fresh by (rule ids_ok_append [of ?ds d])
  show ?thesis
    using notready upd app
    by (simp add: r st1 p update_mongo_state_def Let_def)
qed

lemma inv_pull:
  assumes ok: "ids_ok (images st)" and ns: "no_success (images st)"
  shows "ids_ok (images (snd (pull e st auth request delay tm))) \<and>
         no_success (images (snd (pull e st auth request delay tm)))"
proof -
  note inv = new_image_record_inv [OF ok ns]
  from pull_state_cases [of e st auth request delay tm] show ?thesis
  proof (elim disjE exE conjE)
    assume "snd (pull e st auth request delay tm) = st"
    with ok ns show ?thesis by simp
  next
    fix x st1 assume "new_image_record e st auth request = (Inl x, st1)"
      "snd (pull e st auth request delay tm) = st1"
    with inv [OF this(1)] show ?thesis by simp
  next
    fix rec st1 assume "new_image_record e st auth request = (Inr rec, st1)"
      "isready st request = Inr True" "snd (pull e st auth request delay tm) = st1"
    with inv [OF this(1)] show ?thesis by simp
  next
    fix rec st1 assume "new_image_record e st auth request = (Inr rec, st1)"
      "snd (pull e st auth request delay tm) = update_mongo_state st1 (pop_id rec) ''ENQUEUED''"
    with inv [OF this(1)] show ?thesis by (simp add: ids_ok_ums)
  next
    fix rec st1 h x assume "new_image_record e st auth request = (Inr rec, st1)"
      "snd (pull e st auth request delay tm) =
         track ((update_mongo_state st1 (pop_id rec) ''ENQUEUED'')\<lparr>sent := x\<rparr>) h (pop_id rec)"
    with inv [OF this(1)] ids_ok_ums [of st1 "pop_id rec" "''ENQUEUED''"] show ?thesis
      by (simp add: update_mongo_state_def Let_def)
  next
    fix rec st1 h assume "new_image_record e st auth request = (Inr rec, st1)"
      "snd (pull e st auth request delay tm) =
         track (update_mongo_state st1 (pop_id rec) ''ENQUEUED'') h (pop_id rec)"
    with inv [OF this(1)] show ?thesis by (simp add: ids_ok_ums)
  qed
qed

lemma inv_exec:
  assumes "ids_ok (images st)" "no_success (images st)"
  shows "ids_ok (images (exec e c st)) \<and> no_success (images (exec e c st))"
proof (cases c)
  case (Lookup auth img)
  then show ?thesis using lookup_state [of e st auth img] assms
    by (auto simp: ids_ok_refresh no_success_refresh)
next
  case (Pull auth request delay tm)
  then show ?thesis using inv_pull [OF assms] by simp
next
  case (Get_state i)
  then show ?thesis using assms by (simp add: get_state_state ids_ok_refresh no_success_refresh)
next
  case (Expire a b c d f)
  then show ?thesis using assms by (simp add: expire_def)
qed

lemma inv_run:
  "ids_ok (images st) \<Longrightarrow> no_success (images st) \<Longrightarrow>
   ids_ok (images (run cs st)) \<and> no_success (images (run cs st))"
  by (induction cs arbitrary: st) (auto simp: inv_exec)

lemma tracked_new_image_record:
  "tracked st \<Longrightarrow> tracked (snd (new_image_record e st auth img))"
  using new_image_record_cases [of e st auth img]
  by (elim disjE exE conjE) (auto simp: tracked_refresh, simp add: tracked_def update_states_fields)

lemma tracked_pull:
  assumes "tracked st"
  shows "tracked (snd (pull e st auth request delay tm))"
proof -
  have n: "tracked st1" if "new_image_record e st auth request = (r, st1)" for r st1
    using tracked_new_image_record [OF assms, of e auth request] that by simp
  have s: "tracked (st1\<lparr>sent := x\<rparr>) = tracked st1" for st1 x
    by (simp add: tracked_def)
  from pull_state_cases [of e st auth request delay tm] show ?thesis
    by (elim disjE exE conjE) (auto simp: assms tracked_ums s intro!: tracked_track dest: n)
qed

lemma tracked_exec: "tracked st \<Longrightarrow> tracked (exec e c st)"
proof (cases c)
  case (Lookup auth img)
  assume "tracked st"
  then show ?thesis using lookup_state [of e st auth img] Lookup by (auto simp: tracked_refresh)
next
  case (Pull auth request delay tm)
  assume "tracked st"
  then show ?thesis using Pull by (simp add: tracked_pull)
next
  case (Get_state i)
  assume "tracked st"
  then show ?thesis using Get_state by (simp add: get_state_state tracked_refresh)
next
  case (Expire a b c d f)
  assume "tracked st"
  then show ?thesis using Expire by (simp add: expire_def)
qed

lemma tracked_run: "tracked st \<Longrightarrow> tracked (run cs st)"
  by (induction cs arbitrary: st) (auto simp: tracked_exec)

lemma has_status_new_image_record:
  assumes "has_status (images st)"
  shows "has_status (images (snd (new_image_record e st auth img)))"
  using new_image_record_cases [of e st auth img]
proof (elim disjE exE conjE)
  fix q d
  assume "\<forall>k. k \<noteq> ''_id'' \<longrightarrow> d k = (default_image ++ img) k"
    and n: "new_image_record e st auth img =
        (Inr d, (snd (update_states e st))\<lparr>images := images (snd (update_states e st)) @ [d]\<rparr>)"
  then have "d ''status'' \<noteq> None" by (simp add: map_add_def default_image_def split: option.splits)
  with has_status_refresh [OF assms, of e] show ?thesis by (simp add: n has_status_def)
qed (simp_all add: assms has_status_refresh)

lemma has_status_pull:
  assumes "has_status (images st)"
  shows "has_status (images (snd (pull e st auth request delay tm)))"
proof -
  have n: "has_status (images st1)" if "new_image_record e st auth request = (r, st1)" for r st1
    using has_status_new_image_record [OF assms, of e auth request] that by simp
  from pull_state_cases [of e st auth request delay tm] show ?thesis
    by (elim disjE exE conjE) (auto simp: assms ums_images intro: n has_status_ums)
qed

lemma has_status_exec: "has_status (images st) \<Longrightarrow> has_status (images (exec e c st))"
proof (cases c)
  case (Lookup auth img)
  assume "has_status (images st)"
  then show ?thesis using lookup_state [of e st auth img] Lookup
    by (auto simp: has_status_refresh)
next
  case (Pull auth request delay tm)
  assume "has_status (images st)"
  then show ?thesis using Pull by (simp add: has_status_pull)
next
  case (Get_state i)
  assume "has_status (images st)"
  then show ?thesis using Get_state by (simp add: get_state_state has_status_refresh)
next
  case (Expire a b c d f)
  assume "has_status (images st)"
  then show ?thesis using Expire by (simp add: expire_def)
qed

lemma has_status_run: "has_status (images st) \<Longrightarrow> has_status (images (run cs st))"
  by (induction cs arbitrary: st) (auto simp: has_status_exec)

subsection \<open>The example inputs\<close>

lemmas ex_defs = edison_request_def edison_query_def env_reporting_def env_broker_down_def
  edison_record_def one_record_def default_image_def init_def

lemmas run_defs = pull_def isready_def image_query_def find_one_def new_image_record_def
  lookup_def update_states_def mongo_insert_def new_ObjectId_def oid_num_def pop_id_def
  update_mongo_state_def matches_def field_eq_def track_def get_state_def expire_def Let_def

lemma once_pulled_eq:
  "once_pulled =
     \<lparr>images = [edison_record ''ENQUEUED''], tasks = [AsyncResult 0],
      task_image_id = [AsyncResult 0 \<mapsto> ObjectId 1],
      sent = [(Str ''edison'', edison_request, 0)]\<rparr>"
  by (simp add: once_pulled_def ex_defs run_defs)

lemma example_query [simp]: "image_query edison_request = Inr edison_query"
  by (simp add: image_query_def edison_request_def edison_query_def)

lemma example_find [simp]: "find_one edison_query [edison_record s] = Some (edison_record s)"
  by (simp add: find_one_def matches_def field_eq_def ex_defs)

lemma example_fields [simp]:
  "edison_record s ''status'' = Some (Str s)" "pop_id (edison_record s) = ObjectId 1"
  "edison_request ''system'' = Some (Str ''edison'')" "edison_request ''_id'' = None"
  by (simp_all add: ex_defs pop_id_def)

lemma example_id: "edison_record s ''_id'' = Some (ObjectId 1)"
  by (simp add: edison_record_def)

lemma default_image_literal:
  "(default_image ++ request)(''_id'' \<mapsto> i, ''status'' \<mapsto> s) =
   ([''format'' \<mapsto> Str ''ext4'', ''arch'' \<mapsto> Str ''amd64'', ''os'' \<mapsto> Str ''linux'',
     ''location'' \<mapsto> Str '''', ''remotetype'' \<mapsto> Str ''dockerv2'',
     ''ostcount'' \<mapsto> Str ''0'', ''replication'' \<mapsto> Str ''1'',
     ''userAcl'' \<mapsto> Lst [], ''groupAcl'' \<mapsto> Lst []] ++ request)
     (''_id'' \<mapsto> i, ''status'' \<mapsto> s)"
  by (rule ext) (simp add: default_image_def map_add_def split: option.split)

lemma edison_record_literal:
  "([''format'' \<mapsto> Str ''ext4'', ''arch'' \<mapsto> Str ''amd64'', ''os'' \<mapsto> Str ''linux'',
     ''location'' \<mapsto> Str '''', ''remotetype'' \<mapsto> Str ''dockerv2'',
     ''ostcount'' \<mapsto> Str ''0'', ''replication'' \<mapsto> Str ''1'',
     ''userAcl'' \<mapsto> Lst [], ''groupAcl'' \<mapsto> Lst []] ++ edison_request)
     (''_id'' \<mapsto> ObjectId (Suc 0), ''status'' \<mapsto> Str s) = edison_record s"
  unfolding edison_record_def by (simp add: default_image_literal)

lemma example_env [simp]:
  "auth_ok (env_reporting s) a" "broker_up (env_reporting s)" "task_state (env_reporting s) n = s"
  "auth_ok env_broker_down a" "\<not> broker_up env_broker_down"
  by (simp_all add: ex_defs)

lemma example_wf [simp]:
  "tracked (one_record s)" "ids_ok (images (one_record s))" "tracked init" "ids_ok (images init)"
  "tracked once_pulled" "ids_ok (images once_pulled)"
  by (simp_all add: once_pulled_eq tracked_def ids_ok_def ex_defs)

lemma example_run:
  "run example_ops init =
     \<lparr>images = [edison_record ''READY''], tasks = [AsyncResult 0, AsyncResult 1],
      task_image_id = [AsyncResult 0 \<mapsto> ObjectId 1, AsyncResult 1 \<mapsto> ObjectId 1],
      sent = [(Str ''edison'', edison_request, 0), (Str ''edison'', edison_request, 0)]\<rparr>"
  by (simp add: example_ops_def ex_defs run_defs)

subsection \<open>The response fold\<close>

lemma fold_response:
  "fold (\<lambda>field resp. case rec field of Some v \<Rightarrow> resp(field \<mapsto> v)
                                     | None \<Rightarrow> resp(field \<mapsto> Str ''MISSING'')) fs m f =
     (if f \<in> set fs then Some (case rec f of Some v \<Rightarrow> v | None \<Rightarrow> Str ''MISSING'') else m f)"
proof (induction fs arbitrary: m)
  case Nil
  show ?case by simp
next
  case (Cons a fs)
  show ?case by (cases "rec a") (simp_all add: Cons.IH)
qed

section \<open>The claims\<close>

subsection \<open>Pull of a key whose fetch is in flight\<close>




subsection \<open>Status changes by the refresh\<close>

text \<open>
  C2, as the code has it. The status refresh run by \<open>lookup\<close>, \<open>get_state\<close> and \<open>pull\<close>
  leaves a record untouched when no tracked task refers to it. For a record that is not
  \<open>READY\<close> it overwrites the status with the state that the dispatcher currently reports
  for the last tracked task of that record (\<open>SUCCESS\<close> stored as \<open>READY\<close>, \<open>PENDING\<close> for a
  task run in-process), whatever the stored status was. A \<open>READY\<close> record stays \<open>READY\<close>
  when every tracked task of the record is reported as \<open>SUCCESS\<close>.
\<close>

theorem refresh_overwrites_status:
  assumes "tracked st" "find_one [(''_id'', i)] (images st) = Some d"
  shows "((\<forall>t \<in> set (tasks st). task_image_id st t \<noteq> Some i) \<longrightarrow>
            find_one [(''_id'', i)] (images (snd (update_states e st))) = Some d) \<and>
         (\<forall>ts t us. d ''status'' \<noteq> Some (Str ''READY'') \<and> tasks st = ts @ t # us \<and>
              task_image_id st t = Some i \<and> (\<forall>u \<in> set us. task_image_id st u \<noteq> Some i) \<longrightarrow>
            find_one [(''_id'', i)] (images (snd (update_states e st))) =
              Some (d(''status'' \<mapsto>
                 Str (let state = (case t of AsyncResult n \<Rightarrow> task_state e n
                                          | Plain x \<Rightarrow> ''PENDING'')
                      in if state = ''SUCCESS'' then ''READY'' else state)))) \<and>
         (d ''status'' = Some (Str ''READY'') \<and>
          (\<forall>t \<in> set (tasks st). task_image_id st t = Some i \<longrightarrow>
             (\<exists>n. t = AsyncResult n \<and> task_state e n = ''SUCCESS'')) \<longrightarrow>
            find_one [(''_id'', i)] (images (snd (update_states e st))) = Some d)"
  using refresh_no_task [of st i e] refresh_last_task [OF assms, of _ _ _ e]
    refresh_ready_kept [OF assms, of e] assms(2)
  by (intro conjI impI allI) (simp, blast, blast)

text \<open>
  The theorem at a record without task, at the record of one pull whose job succeeded,
  and at a \<open>READY\<close> record whose two jobs are both reported as succeeded.
\<close>

theorem refresh_overwrites_status_witness:
  "find_one [(''_id'', ObjectId 1)]
     (images (snd (update_states (env_reporting ''PENDING'') (one_record ''READY''))))
     = Some (edison_record ''READY'') \<and>
   find_one [(''_id'', ObjectId 1)]
     (images (snd (update_states (env_reporting ''SUCCESS'') once_pulled)))
     = Some (edison_record ''READY'') \<and>
   find_one [(''_id'', ObjectId 1)]
     (images (snd (update_states (env_reporting ''SUCCESS'') (run example_ops init))))
     = Some (edison_record ''READY'')"
proof -
  have f1: "find_one [(''_id'', ObjectId 1)] (images (one_record ''READY''))
            = Some (edison_record ''READY'')"
    by (simp add: find_one_def matches_def field_eq_def ex_defs)
  have n1: "\<forall>t \<in> set (tasks (one_record ''READY'')).
              task_image_id (one_record ''READY'') t \<noteq> Some (ObjectId 1)"
    by (simp add: one_record_def)
  have f2: "find_one [(''_id'', ObjectId 1)] (images once_pulled) = Some (edison_record ''ENQUEUED'')"
    by (simp add: once_pulled_eq) (simp add: find_one_def matches_def field_eq_def ex_defs)
  have t2: "edison_record ''ENQUEUED'' ''status'' \<noteq> Some (Str ''READY'') \<and>
            tasks once_pulled = [] @ AsyncResult 0 # [] \<and>
            task_image_id once_pulled (AsyncResult 0) = Some (ObjectId 1) \<and>
            (\<forall>u \<in> set []. task_image_id once_pulled u \<noteq> Some (ObjectId 1))"
    by (simp add: once_pulled_eq)
  have f3: "find_one [(''_id'', ObjectId 1)] (images (run example_ops init))
            = Some (edison_record ''READY'')"
    by (simp add: example_run) (simp add: find_one_def matches_def field_eq_def ex_defs)
  have t3: "edison_record ''READY'' ''status'' = Some (Str ''READY'') \<and>
            (\<forall>t \<in> set (tasks (run example_ops init)).
               task_image_id (run example_ops init) t = Some (ObjectId 1) \<longrightarrow>
               (\<exists>n. t = AsyncResult n \<and> task_state (env_reporting ''SUCCESS'') n = ''SUCCESS''))"
    by (simp add: example_run)
  have w3: "tracked (run example_ops init)" by (simp add: example_run tracked_def)
  have u: "(edison_record ''ENQUEUED'')(''status'' \<mapsto> Str ''READY'') = edison_record ''READY''"
    by (simp add: edison_record_def)
  from refresh_overwrites_status [OF example_wf(1) f1, of "env_reporting ''PENDING''"] n1
  have a: "find_one [(''_id'', ObjectId 1)]
     (images (snd (update_states (env_reporting ''PENDING'') (one_record ''READY''))))
     = Some (edison_record ''READY'')" by blast
  from refresh_overwrites_status [OF example_wf(5) f2, of "env_reporting ''SUCCESS''"] t2
  have "find_one [(''_id'', ObjectId 1)]
     (images (snd (update_states (env_reporting ''SUCCESS'') once_pulled)))
     = Some ((edison_record ''ENQUEUED'')(''status'' \<mapsto>
                 Str (let state = (case AsyncResult 0 of AsyncResult n \<Rightarrow> task_state (env_reporting ''SUCCESS'') n
                                          | Plain x \<Rightarrow> ''PENDING'')
                      in if state = ''SUCCESS'' then ''READY'' else state)))" by blast
  then have b: "find_one [(''_id'', ObjectId 1)]
     (images (snd (update_states (env_reporting ''SUCCESS'') once_pulled)))
     = Some (edison_record ''READY'')" by (simp add: u)
  from refresh_overwrites_status [OF w3 f3, of "env_reporting ''SUCCESS''"] t3
  have c: "find_one [(''_id'', ObjectId 1)]
     (images (snd (update_states (env_reporting ''SUCCESS'') (run example_ops init))))
     = Some (edison_record ''READY'')" by blast
  from a b c show ?thesis by blast
qed

text \<open>
  C2, as claimed, fails: a record that has reached \<open>PENDING\<close> is set back to \<open>ENQUEUED\<close> by
  the next pull of its key, and a record that has reached \<open>READY\<close> is set to \<open>PENDING\<close> by
  a refresh in which its job is reported as \<open>PENDING\<close>.
\<close>

theorem status_regress_counterexample:
  "fst (get_state (env_reporting ''PENDING'') once_pulled (ObjectId 1)) = Inr (Str ''PENDING'') \<and>
   stored_field
     (snd (pull (env_reporting ''PENDING'')
             (snd (get_state (env_reporting ''PENDING'') once_pulled (ObjectId 1)))
             (Str ''good'') edison_request True 0))
     edison_query ''status'' = Some (Str ''ENQUEUED'') \<and>
   fst (get_state (env_reporting ''SUCCESS'') once_pulled (ObjectId 1)) = Inr (Str ''READY'') \<and>
   fst (get_state (env_reporting ''PENDING'')
          (snd (get_state (env_reporting ''SUCCESS'') once_pulled (ObjectId 1))) (ObjectId 1))
     = Inr (Str ''PENDING'')"
  by (simp add: once_pulled_eq) (simp add: stored_field_def ex_defs run_defs)

subsection \<open>Pull of a new or failed key\<close>




subsection \<open>Pull of a ready key\<close>



subsection \<open>Expiry\<close>

text \<open>
  C5, as the code has it. \<open>expire\<close> returns an empty acknowledgement and leaves the
  manager and its store as they were, so a lookup made right after it returns what it
  would have returned before.
\<close>

theorem expire_keeps:
  "expire st auth system type tag ident = (Inr Map.empty, st) \<and>
   lookup e (snd (expire st auth system type tag ident)) auth' img = lookup e st auth' img"
  by (simp add: expire_def)

text \<open>The theorem at a store holding the example record.\<close>

theorem expire_keeps_witness:
  "fst (expire (one_record ''READY'') (Str ''good'') (Str ''edison'') (Str ''docker'')
          (Str ''ubuntu:15.04'') (ObjectId 1)) = Inr Map.empty \<and>
   images (snd (expire (one_record ''READY'') (Str ''good'') (Str ''edison'') (Str ''docker'')
                  (Str ''ubuntu:15.04'') (ObjectId 1))) = [edison_record ''READY'']"
  using expire_keeps [of "one_record ''READY''" "Str ''good''" "Str ''edison''" "Str ''docker''"
      "Str ''ubuntu:15.04''" "ObjectId 1"]
  by (simp add: one_record_def)

text \<open>
  C5, as claimed, fails: after \<open>expire\<close> of the example key a lookup still returns its
  record.
\<close>

theorem expire_counterexample:
  "fst (lookup (env_reporting ''PENDING'')
         (snd (expire (one_record ''READY'') (Str ''good'') (Str ''edison'') (Str ''docker'')
                 (Str ''ubuntu:15.04'') (ObjectId 1)))
         (Str ''good'') edison_request)
   = Inr (Some (edison_record ''READY''))"
  by (simp add: ex_defs run_defs)

subsection \<open>Pull when the submission fails\<close>




subsection \<open>get_state\<close>

text \<open>
  C7, as the code has it. For an id without stored record \<open>get_state\<close> fails with the
  \<open>TypeError\<close> of subscripting the \<open>None\<close> that \<open>find_one\<close> returns. For an id whose record
  has a status, \<open>get_state\<close> refreshes the tracked tasks and returns the status which the
  store then holds for that id: the stored status when no tracked task refers to the
  record, and for a record that is not \<open>READY\<close> the state reported for its last tracked
  task (\<open>SUCCESS\<close> as \<open>READY\<close>).
\<close>

theorem get_state_result:
  assumes "tracked st"
  shows "(find_one [(''_id'', i)] (images st) = None \<longrightarrow>
            fst (get_state e st i) = Inl TypeError) \<and>
         (\<forall>d. find_one [(''_id'', i)] (images st) = Some d \<and> d ''status'' \<noteq> None \<longrightarrow>
            snd (get_state e st i) = snd (update_states e st) \<and>
            (\<exists>s. fst (get_state e st i) = Inr s \<and>
                 stored_field (snd (update_states e st)) [(''_id'', i)] ''status'' = Some s)) \<and>
         (\<forall>d s. find_one [(''_id'', i)] (images st) = Some d \<and> d ''status'' = Some s \<and>
              (\<forall>t \<in> set (tasks st). task_image_id st t \<noteq> Some i) \<longrightarrow>
            fst (get_state e st i) = Inr s) \<and>
         (\<forall>d ts t us. find_one [(''_id'', i)] (images st) = Some d \<and>
              d ''status'' \<noteq> Some (Str ''READY'') \<and> tasks st = ts @ t # us \<and>
              task_image_id st t = Some i \<and> (\<forall>u \<in> set us. task_image_id st u \<noteq> Some i) \<longrightarrow>
            fst (get_state e st i) =
              Inr (Str (let state = (case t of AsyncResult n \<Rightarrow> task_state e n
                                           | Plain x \<Rightarrow> ''PENDING'')
                        in if state = ''SUCCESS'' then ''READY'' else state)))"
proof -
  obtain r st' where u: "update_states e st = (r, st')" by (cases "update_states e st")
  with update_states_ok [OF assms, of e] have r: "r = Inr ()" by simp
  have g: "fst (get_state e st i) = Inr s"
    if "find_one [(''_id'', i)] (images st') = Some d'" "d' ''status'' = Some s" for d' s
    using that u r by (simp add: get_state_def)
  have a: "fst (get_state e st i) = Inl TypeError" if "find_one [(''_id'', i)] (images st) = None"
    using find_one_refresh_None [OF key_query_id that, of e] u r
    by (simp add: get_state_def)
  have b: "snd (get_state e st i) = snd (update_states e st) \<and>
            (\<exists>s. fst (get_state e st i) = Inr s \<and>
                 stored_field (snd (update_states e st)) [(''_id'', i)] ''status'' = Some s)"
    if f: "find_one [(''_id'', i)] (images st) = Some d" and s: "d ''status'' \<noteq> None" for d
  proof -
    from find_one_refresh [OF key_query_id f, of e] obtain d1 where
      d1: "find_one [(''_id'', i)] (images st') = Some d1" and sb: "same_but_status d d1"
      using u by auto
    from sb s obtain s1 where "d1 ''status'' = Some s1" by (auto simp: same_but_status_def)
    with d1 u r show ?thesis by (simp add: get_state_def stored_field_def)
  qed
  have c: "fst (get_state e st i) = Inr s"
    if f: "find_one [(''_id'', i)] (images st) = Some d" and s: "d ''status'' = Some s"
      and n: "\<forall>t \<in> set (tasks st). task_image_id st t \<noteq> Some i" for d s
  proof -
    from refresh_no_task [OF n, of e] f u have "find_one [(''_id'', i)] (images st') = Some d"
      by simp
    from g [OF this s] show ?thesis .
  qed
  have d: "fst (get_state e st i) =
              Inr (Str (let state = (case t of AsyncResult n \<Rightarrow> task_state e n
                                           | Plain x \<Rightarrow> ''PENDING'')
                        in if state = ''SUCCESS'' then ''READY'' else state))"
    if f: "find_one [(''_id'', i)] (images st) = Some d"
      and sp: "tasks st = ts @ t # us" and ti: "task_image_id st t = Some i"
      and rest: "\<forall>u \<in> set us. task_image_id st u \<noteq> Some i" for d ts t us
  proof -
    from refresh_last_task [OF assms f sp ti rest, of e] u
    have "find_one [(''_id'', i)] (images st') =
          Some (d(''status'' \<mapsto>
                 Str (let state = (case t of AsyncResult n \<Rightarrow> task_state e n
                                          | Plain x \<Rightarrow> ''PENDING'')
                      in if state = ''SUCCESS'' then ''READY'' else state)))" by simp
    from g [OF this] show ?thesis by simp
  qed
  from a b c d show ?thesis by blast
qed

text \<open>
  The theorem at an unknown id, at the record of one pull whose job is reported as
  succeeded or as started, and at a failed record without task.
\<close>

theorem get_state_result_witness:
  "fst (get_state (env_reporting ''PENDING'') init (ObjectId 7)) = Inl TypeError \<and>
   fst (get_state (env_reporting ''SUCCESS'') once_pulled (ObjectId 1)) = Inr (Str ''READY'') \<and>
   fst (get_state (env_reporting ''STARTED'') once_pulled (ObjectId 1)) = Inr (Str ''STARTED'') \<and>
   fst (get_state (env_reporting ''SUCCESS'') (one_record ''FAILURE'') (ObjectId 1))
     = Inr (Str ''FAILURE'') \<and>
   stored_field (snd (get_state (env_reporting ''SUCCESS'') once_pulled (ObjectId 1)))
     [(''_id'', ObjectId 1)] ''status'' = Some (Str ''READY'')"
proof -
  have f1: "find_one [(''_id'', ObjectId 7)] (images init) = None"
    by (simp add: find_one_def init_def)
  have f2: "find_one [(''_id'', ObjectId 1)] (images once_pulled) = Some (edison_record ''ENQUEUED'') \<and>
            edison_record ''ENQUEUED'' ''status'' \<noteq> None"
    by (simp add: once_pulled_eq) (simp add: find_one_def matches_def field_eq_def ex_defs)
  have t2: "edison_record ''ENQUEUED'' ''status'' \<noteq> Some (Str ''READY'') \<and>
            tasks once_pulled = [] @ AsyncResult 0 # [] \<and>
            task_image_id once_pulled (AsyncResult 0) = Some (ObjectId 1) \<and>
            (\<forall>u \<in> set []. task_image_id once_pulled u \<noteq> Some (ObjectId 1))"
    by (simp add: once_pulled_eq)
  have f3: "find_one [(''_id'', ObjectId 1)] (images (one_record ''FAILURE''))
              = Some (edison_record ''FAILURE'') \<and>
            edison_record ''FAILURE'' ''status'' = Some (Str ''FAILURE'') \<and>
            (\<forall>t \<in> set (tasks (one_record ''FAILURE'')).
               task_image_id (one_record ''FAILURE'') t \<noteq> Some (ObjectId 1))"
    by (simp add: find_one_def matches_def field_eq_def ex_defs)
  from get_state_result [OF example_wf(3), of "ObjectId 7" "env_reporting ''PENDING''"] f1
  have a: "fst (get_state (env_reporting ''PENDING'') init (ObjectId 7)) = Inl TypeError" by blast
  note g = get_state_result [OF example_wf(5), of "ObjectId 1"]
  from g [of "env_reporting ''SUCCESS''"] f2
  have b: "snd (get_state (env_reporting ''SUCCESS'') once_pulled (ObjectId 1))
             = snd (update_states (env_reporting ''SUCCESS'') once_pulled) \<and>
           (\<exists>s. fst (get_state (env_reporting ''SUCCESS'') once_pulled (ObjectId 1)) = Inr s \<and>
              stored_field (snd (update_states (env_reporting ''SUCCESS'') once_pulled))
                [(''_id'', ObjectId 1)] ''status'' = Some s)" by blast
  have l: "fst (get_state e once_pulled (ObjectId 1)) =
              Inr (Str (let state = (case AsyncResult 0 of AsyncResult n \<Rightarrow> task_state e n
                                           | Plain x \<Rightarrow> ''PENDING'')
                        in if state = ''SUCCESS'' then ''READY'' else state))" for e
    using g [of e] f2 t2 by blast
  have c1: "fst (get_state (env_reporting ''SUCCESS'') once_pulled (ObjectId 1)) = Inr (Str ''READY'')"
    using l [of "env_reporting ''SUCCESS''"] by simp
  have c2: "fst (get_state (env_reporting ''STARTED'') once_pulled (ObjectId 1)) = Inr (Str ''STARTED'')"
    using l [of "env_reporting ''STARTED''"] by simp
  from get_state_result [OF example_wf(1) [of "''FAILURE''"], of "ObjectId 1"
      "env_reporting ''SUCCESS''"] f3
  have c3: "fst (get_state (env_reporting ''SUCCESS'') (one_record ''FAILURE'') (ObjectId 1))
     = Inr (Str ''FAILURE'')" by blast
  from b c1 have c4: "stored_field (snd (get_state (env_reporting ''SUCCESS'') once_pulled (ObjectId 1)))
     [(''_id'', ObjectId 1)] ''status'' = Some (Str ''READY'')" by auto
  from a c1 c2 c3 c4 show ?thesis by blast
qed

text \<open>
  C7, as claimed, fails: for an id that no record has, the failure is the \<open>TypeError\<close>
  of the subscript; the code has no not-found error.
\<close>

theorem get_state_unknown_counterexample:
  "find_one [(''_id'', ObjectId 7)] (images init) = None \<and>
   fst (get_state (env_reporting ''PENDING'') init (ObjectId 7)) = Inl TypeError"
  by (simp add: ex_defs run_defs)

subsection \<open>One record per key\<close>

text \<open>
  C8. The empty store has at most one record per key (system, itype, tag), and every
  sequence of operations keeps it so. \<open>new_image_record\<close> for a key that has a record
  returns that record (with its refreshed status) and inserts nothing.
\<close>

theorem one_record_per_key:
  "keys_unique (images init) \<and>
   (keys_unique (images st) \<longrightarrow> keys_unique (images (run cs st))) \<and>
   (auth_ok e auth \<and> image_query img = Inr q \<and> tracked st \<and> find_one q (images st) = Some r \<longrightarrow>
      (\<exists>r1. fst (new_image_record e st auth img) = Inr r1 \<and> same_but_status r r1) \<and>
      length (images (snd (new_image_record e st auth img))) = length (images st))"
proof -
  have a: "keys_unique (images init)" by (simp add: init_def keys_unique_def)
  have c: "(\<exists>r1. fst (new_image_record e st auth img) = Inr r1 \<and> same_but_status r r1) \<and>
      length (images (snd (new_image_record e st auth img))) = length (images st)"
    if "auth_ok e auth" "image_query img = Inr q" "tracked st" "find_one q (images st) = Some r"
    using new_image_record_existing [OF that] by (auto simp: length_refresh)
  from a c keys_unique_run [of st cs] show ?thesis by blast
qed

text \<open>The theorem at the example sequence and at the manager reached by one pull.\<close>

theorem one_record_per_key_witness:
  "keys_unique (images init) \<and>
   keys_unique (images (run example_ops init)) \<and>
   images (run example_ops init) = [edison_record ''READY''] \<and>
   find_one edison_query (images once_pulled) = Some (edison_record ''ENQUEUED'') \<and>
   length (images (snd (new_image_record (env_reporting ''PENDING'') once_pulled (Str ''good'')
                          edison_request))) = 1"
proof -
  note t = one_record_per_key [of init example_ops]
  note t' = one_record_per_key [of once_pulled "[]" "env_reporting ''PENDING''" "Str ''good''"
      edison_request edison_query "edison_record ''ENQUEUED''"]
  have f: "find_one edison_query (images once_pulled) = Some (edison_record ''ENQUEUED'')"
    by (simp add: once_pulled_eq)
  have l: "length (images once_pulled) = 1" by (simp add: once_pulled_eq)
  from t have k: "keys_unique (images init)" and r: "keys_unique (images (run example_ops init))"
    by blast+
  from t' f have "length (images (snd (new_image_record (env_reporting ''PENDING'') once_pulled
                   (Str ''good'') edison_request))) = length (images once_pulled)"
    by simp
  with k r f l show ?thesis by (simp add: example_run)
qed

subsection \<open>The rendered record\<close>

text \<open>
  C9. The response built by \<open>create_response\<close> has exactly the eleven fields
  \<open>id, system, itype, tag, status, userAcl, groupAcl, ENV, ENTRY, WORKDIR, last_pull\<close>;
  a field present in the record is copied through unchanged and a field absent from
  it is rendered as the string \<open>MISSING\<close>.
\<close>

theorem create_response_fields:
  "dom (create_response rec) =
     {''id'', ''system'', ''itype'', ''tag'', ''status'', ''userAcl'', ''groupAcl'',
      ''ENV'', ''ENTRY'', ''WORKDIR'', ''last_pull''} \<and>
   (\<forall>f \<in> {''id'', ''system'', ''itype'', ''tag'', ''status'', ''userAcl'', ''groupAcl'',
            ''ENV'', ''ENTRY'', ''WORKDIR'', ''last_pull''}.
      create_response rec f = Some (case rec f of Some v \<Rightarrow> v | None \<Rightarrow> Str ''MISSING''))"
proof -
  have s: "set response_fields =
     {''id'', ''system'', ''itype'', ''tag'', ''status'', ''userAcl'', ''groupAcl'',
      ''ENV'', ''ENTRY'', ''WORKDIR'', ''last_pull''}"
    by (simp add: response_fields_def)
  have eq: "create_response rec f =
      (if f \<in> set response_fields
       then Some (case rec f of Some v \<Rightarrow> v | None \<Rightarrow> Str ''MISSING'') else None)" for f
    unfolding create_response_def by (simp add: fold_response)
  have "dom (create_response rec) = set response_fields"
    by (auto simp: dom_def eq split: if_splits)
  moreover have "\<forall>f \<in> set response_fields.
      create_response rec f = Some (case rec f of Some v \<Rightarrow> v | None \<Rightarrow> Str ''MISSING'')"
    by (simp add: eq)
  ultimately show ?thesis unfolding s by blast
qed

text \<open>
  The theorem at the example request, which has system, itype and tag only; a field
  outside the eleven is not rendered.
\<close>

theorem create_response_fields_witness:
  "map (create_response edison_request)
     [''id'', ''system'', ''itype'', ''tag'', ''status'', ''userAcl'', ''groupAcl'',
      ''ENV'', ''ENTRY'', ''WORKDIR'', ''last_pull'']
   = [Some (Str ''MISSING''), Some (Str ''edison''), Some (Str ''docker''),
      Some (Str ''ubuntu:15.04''), Some (Str ''MISSING''), Some (Str ''MISSING''),
      Some (Str ''MISSING''), Some (Str ''MISSING''), Some (Str ''MISSING''),
      Some (Str ''MISSING''), Some (Str ''MISSING'')] \<and>
   create_response edison_request ''format'' = None"
proof -
  note t = create_response_fields [of edison_request]
  have
    d: "dom (create_response edison_request) =
     {''id'', ''system'', ''itype'', ''tag'', ''status'', ''userAcl'', ''groupAcl'',
      ''ENV'', ''ENTRY'', ''WORKDIR'', ''last_pull''}"
    by (rule conjunct1 [OF t])
  have
    a: "\<forall>f \<in> {''id'', ''system'', ''itype'', ''tag'', ''status'', ''userAcl'', ''groupAcl'',
            ''ENV'', ''ENTRY'', ''WORKDIR'', ''last_pull''}.
      create_response edison_request f =
        Some (case edison_request f of Some v \<Rightarrow> v | None \<Rightarrow> Str ''MISSING'')"
    by (rule conjunct2 [OF t])
  have v: "create_response edison_request f =
        Some (case edison_request f of Some v \<Rightarrow> v | None \<Rightarrow> Str ''MISSING'')"
    if "f \<in> {''id'', ''system'', ''itype'', ''tag'', ''status'', ''userAcl'', ''groupAcl'',
            ''ENV'', ''ENTRY'', ''WORKDIR'', ''last_pull''}" for f
    by (rule bspec [OF a that])
  have r: "create_response edison_request ''id'' = Some (Str ''MISSING'')"
    "create_response edison_request ''system'' = Some (Str ''edison'')"
    "create_response edison_request ''itype'' = Some (Str ''docker'')"
    "create_response edison_request ''tag'' = Some (Str ''ubuntu:15.04'')"
    "create_response edison_request ''status'' = Some (Str ''MISSING'')"
    "create_response edison_request ''userAcl'' = Some (Str ''MISSING'')"
    "create_response edison_request ''groupAcl'' = Some (Str ''MISSING'')"
    "create_response edison_request ''ENV'' = Some (Str ''MISSING'')"
    "create_response edison_request ''ENTRY'' = Some (Str ''MISSING'')"
    "create_response edison_request ''WORKDIR'' = Some (Str ''MISSING'')"
    "create_response edison_request ''last_pull'' = Some (Str ''MISSING'')"
    by ((subst v, simp, simp add: edison_request_def)+)
  have "''format'' \<notin> dom (create_response edison_request)" unfolding d by simp
  then have n: "create_response edison_request ''format'' = None" by (simp add: domIff)
  show ?thesis by (simp add: r n)
qed

subsection \<open>No stored SUCCESS\<close>

text \<open>
  C10, as the code has it. \<open>update_mongo_state\<close> stores \<open>READY\<close> for the state \<open>SUCCESS\<close>
  and every other state as it is, and the refresh is the sequence of these writes, one
  per tracked task. The first status of a new record is written by the insertion in
  \<open>new_image_record\<close> instead: \<open>UNKNOWN\<close>, or the status of the request when it has one.
  After \<open>lookup\<close>, \<open>pull\<close>, \<open>get_state\<close> and \<open>expire\<close>, in any sequence and with any
  requests and reports, a store with proper ids and without a \<open>SUCCESS\<close> status has
  none.
\<close>

theorem no_success_stored:
  "(find_one [(''_id'', i)] (images st) = Some d \<longrightarrow>
      find_one [(''_id'', i)] (images (update_mongo_state st i s)) =
        Some (d(''status'' \<mapsto> Str (if s = ''SUCCESS'' then ''READY'' else s)))) \<and>
   (tracked st \<longrightarrow>
      snd (update_states e st) =
        fold (\<lambda>t s. case task_image_id st t of
                      None \<Rightarrow> s
                    | Some j \<Rightarrow> update_mongo_state s j
                        (case t of AsyncResult n \<Rightarrow> task_state e n | Plain x \<Rightarrow> ''PENDING''))
             (tasks st) st) \<and>
   (auth_ok e auth \<and> image_query img = Inr q \<and> tracked st \<and> find_one q (images st) = None \<and>
    img ''_id'' = None \<longrightarrow>
      stored_field (snd (new_image_record e st auth img)) q ''status'' =
        Some (case img ''status'' of None \<Rightarrow> Str ''UNKNOWN'' | Some v \<Rightarrow> v)) \<and>
   (ids_ok (images st) \<and> no_success (images st) \<longrightarrow> no_success (images (run cs st)))"
proof -
  have a: "find_one [(''_id'', i)] (images st) = Some d \<longrightarrow>
      find_one [(''_id'', i)] (images (update_mongo_state st i s)) =
        Some (d(''status'' \<mapsto> Str (if s = ''SUCCESS'' then ''READY'' else s)))"
    by (simp add: update_mongo_state_def Let_def find_id_update_same)
  have b: "snd (update_states e st) =
        fold (\<lambda>t s. case task_image_id st t of
                      None \<Rightarrow> s
                    | Some j \<Rightarrow> update_mongo_state s j
                        (case t of AsyncResult n \<Rightarrow> task_state e n | Plain x \<Rightarrow> ''PENDING''))
             (tasks st) st" if "tracked st"
    unfolding update_states_def using that
    by (intro loop_fold) (simp_all add: tracked_def)
  from a b new_image_record_status [of e auth img q st] inv_run [of st cs]
  show ?thesis by blast
qed

text \<open>
  The theorem at the record of one pull, at the insertion of the example request, and
  at a sequence whose request carries the status \<open>SUCCESS\<close> and whose job is reported
  as \<open>SUCCESS\<close>.
\<close>

theorem no_success_stored_witness:
  "find_one [(''_id'', ObjectId 1)] (images (update_mongo_state once_pulled (ObjectId 1) ''SUCCESS''))
     = Some (edison_record ''READY'') \<and>
   find_one [(''_id'', ObjectId 1)] (images (update_mongo_state once_pulled (ObjectId 1) ''FAILURE''))
     = Some (edison_record ''FAILURE'') \<and>
   snd (update_states (env_reporting ''SUCCESS'') once_pulled)
     = update_mongo_state once_pulled (ObjectId 1) ''SUCCESS'' \<and>
   stored_field (snd (new_image_record (env_reporting ''PENDING'') init (Str ''good'') edison_request))
     edison_query ''status'' = Some (Str ''UNKNOWN'') \<and>
   no_success (images (run success_ops init)) \<and>
   stored_field (run success_ops init) edison_query ''status'' = Some (Str ''READY'')"
proof -
  have f: "find_one [(''_id'', ObjectId 1)] (images once_pulled) = Some (edison_record ''ENQUEUED'')"
    by (simp add: once_pulled_eq) (simp add: find_one_def matches_def field_eq_def ex_defs)
  have u: "(edison_record ''ENQUEUED'')(''status'' \<mapsto> Str s) = edison_record s" for s
    by (simp add: edison_record_def)
  have i: "ids_ok (images init) \<and> no_success (images init)"
    by (simp add: init_def ids_ok_def no_success_def)
  have n: "auth_ok (env_reporting ''PENDING'') (Str ''good'') \<and>
           image_query edison_request = Inr edison_query \<and> tracked init \<and>
           find_one edison_query (images init) = None \<and> edison_request ''_id'' = None"
    by (simp add: init_def find_one_def tracked_def)
  have ns: "edison_request ''status'' = None" by (simp add: edison_request_def)
  from no_success_stored [of "ObjectId 1" once_pulled "edison_record ''ENQUEUED''" "''SUCCESS''"] f
  have a: "find_one [(''_id'', ObjectId 1)]
             (images (update_mongo_state once_pulled (ObjectId 1) ''SUCCESS''))
           = Some (edison_record ''READY'')" by (simp add: u)
  from no_success_stored [of "ObjectId 1" once_pulled "edison_record ''ENQUEUED''" "''FAILURE''"] f
  have b: "find_one [(''_id'', ObjectId 1)]
             (images (update_mongo_state once_pulled (ObjectId 1) ''FAILURE''))
           = Some (edison_record ''FAILURE'')" by (simp add: u)
  from no_success_stored [of _ once_pulled _ _ "env_reporting ''SUCCESS''"] example_wf(5)
  have "snd (update_states (env_reporting ''SUCCESS'') once_pulled) =
        fold (\<lambda>t s. case task_image_id once_pulled t of
                      None \<Rightarrow> s
                    | Some j \<Rightarrow> update_mongo_state s j
                        (case t of AsyncResult n \<Rightarrow> task_state (env_reporting ''SUCCESS'') n
                                 | Plain x \<Rightarrow> ''PENDING''))
             (tasks once_pulled) once_pulled" by blast
  then have c: "snd (update_states (env_reporting ''SUCCESS'') once_pulled)
     = update_mongo_state once_pulled (ObjectId 1) ''SUCCESS''"
    by (simp add: once_pulled_eq)
  from no_success_stored [of _ init _ _ "env_reporting ''PENDING''" "Str ''good''"
      edison_request edison_query] n
  have "stored_field (snd (new_image_record (env_reporting ''PENDING'') init (Str ''good'')
                             edison_request)) edison_query ''status'' =
        Some (case edison_request ''status'' of None \<Rightarrow> Str ''UNKNOWN'' | Some v \<Rightarrow> v)"
    by blast
  then have d: "stored_field (snd (new_image_record (env_reporting ''PENDING'') init (Str ''good'')
                  edison_request)) edison_query ''status'' = Some (Str ''UNKNOWN'')"
    by (simp add: ns)
  from no_success_stored [of _ init _ _ _ _ _ _ success_ops] i
  have g: "no_success (images (run success_ops init))" by blast
  have h: "stored_field (run success_ops init) edison_query ''status'' = Some (Str ''READY'')"
    by (simp add: success_ops_def stored_field_def ex_defs run_defs)
  from a b c d g h show ?thesis by blast
qed

text \<open>
  C10, as claimed, fails: \<open>new_image_record\<close> for a request that carries the status
  \<open>SUCCESS\<close> stores a record with that status, written by the insertion.
\<close>

theorem no_success_insert_counterexample:
  "stored_field
     (snd (new_image_record (env_reporting ''PENDING'') init (Str ''good'')
             (edison_request(''status'' \<mapsto> Str ''SUCCESS''))))
     edison_query ''status'' = Some (Str ''SUCCESS'')"
  by (simp add: stored_field_def ex_defs run_defs)

end
